theory Spec2Isabelle
  imports Complex_Main "HOL-Library.Word"
begin

unbundle bit_operations_syntax

section \<open>Machine types\<close>

text \<open>
  The library targets RV64IM: \<open>unsigned int\<close> is 32 bits wide, \<open>unsigned long long\<close>,
  \<open>size_t\<close> and \<open>uintptr_t\<close> are 64 bits wide.  A \<open>float\<close> or \<open>double\<close> argument is
  only ever looked at through \<open>f32_to_bits\<close> / \<open>f64_to_bits\<close> (a union pun), so a
  floating-point value is modelled as its bit pattern.  Variables of C type \<open>int\<close>
  that hold a sign, an exponent or a shift count are modelled as HOL integers: their
  values stay below \<open>2 ^ 12\<close> in magnitude, far from the 32-bit range.
\<close>

type_synonym u32 = "32 word"
type_synonym u64 = "64 word"

section \<open>SoftFloat engine, single precision (frostbite_softfloat.c)\<close>

definition f32_sign :: "u32 \<Rightarrow> int" where
  "f32_sign a = uint (drop_bit 31 a AND 1)"

definition f32_exp :: "u32 \<Rightarrow> int" where
  "f32_exp a = uint (drop_bit 23 a AND 0xFF)"

definition f32_frac :: "u32 \<Rightarrow> u32" where
  "f32_frac a = a AND 0x7FFFFF"

definition f32_is_nan :: "u32 \<Rightarrow> bool" where
  "f32_is_nan a \<longleftrightarrow> f32_exp a = 0xFF \<and> f32_frac a \<noteq> 0"

text \<open>
  \<open>f32_cmp\<close> writes through its \<open>unordered\<close> out-parameter only in the NaN branch.
  The model takes the value the caller stored there and returns the pair of the
  function result and the value stored afterwards.  \<open>sa\<close> and \<open>sb\<close> are \<open>i32\<close>: the
  subtraction from \<open>0x80000000\<close> wraps, the comparisons are signed.
\<close>

definition f32_cmp :: "u32 \<Rightarrow> u32 \<Rightarrow> int \<Rightarrow> int \<times> int" where
  "f32_cmp ua ub unordered =
     (if f32_is_nan ua \<or> f32_is_nan ub then (0, 1)
      else if ua AND 0x7FFFFFFF = 0 \<and> ub AND 0x7FFFFFFF = 0 then (0, unordered)
      else
        let sa = (if sint ua < 0 then 0x80000000 - ua else ua);
            sb = (if sint ub < 0 then 0x80000000 - ub else ub)
        in if sint sa < sint sb then (- 1, unordered)
           else if sint sa > sint sb then (1, unordered)
           else (0, unordered))"

definition gtsf2 :: "u32 \<Rightarrow> u32 \<Rightarrow> int" where
  "gtsf2 a b = (let (cmp, unordered) = f32_cmp a b 0 in if unordered \<noteq> 0 then - 1 else cmp)"

definition gesf2 :: "u32 \<Rightarrow> u32 \<Rightarrow> int" where
  "gesf2 a b = (let (cmp, unordered) = f32_cmp a b 0 in if unordered \<noteq> 0 then - 1 else cmp)"

definition ltsf2 :: "u32 \<Rightarrow> u32 \<Rightarrow> int" where
  "ltsf2 a b = (let (cmp, unordered) = f32_cmp a b 0 in if unordered \<noteq> 0 then 1 else cmp)"

definition lesf2 :: "u32 \<Rightarrow> u32 \<Rightarrow> int" where
  "lesf2 a b = (let (cmp, unordered) = f32_cmp a b 0 in if unordered \<noteq> 0 then 1 else cmp)"

definition eqsf2 :: "u32 \<Rightarrow> u32 \<Rightarrow> int" where
  "eqsf2 a b = (let (cmp, unordered) = f32_cmp a b 0
                in if unordered \<noteq> 0 then 1 else if cmp = 0 then 0 else 1)"

definition nesf2 :: "u32 \<Rightarrow> u32 \<Rightarrow> int" where
  "nesf2 a b = (let (cmp, unordered) = f32_cmp a b 0
                in if unordered \<noteq> 0 then 1 else if cmp = 0 then 0 else 1)"

definition unordsf2 :: "u32 \<Rightarrow> u32 \<Rightarrow> int" where
  "unordsf2 ua ub =
     (if (f32_exp ua = 0xFF \<and> f32_frac ua \<noteq> 0) \<or> (f32_exp ub = 0xFF \<and> f32_frac ub \<noteq> 0)
      then 1 else 0)"

text \<open>
  The two normalisation loops of \<open>__addsf3\<close> and \<open>__divsf3\<close>:
  \<^verbatim>\<open>while (fr >= 0x1000000) { fr >>= 1; er++; }\<close> and
  \<^verbatim>\<open>while (fr < 0x800000 && er > 0) { fr <<= 1; er--; }\<close>, on the \<open>u64\<close> \<open>fr\<close>.
\<close>

function f32_norm_right :: "u64 \<Rightarrow> int \<Rightarrow> u64 \<times> int" where
  "f32_norm_right fr er =
     (if fr \<ge> 0x1000000 then f32_norm_right (drop_bit 1 fr) (er + 1) else (fr, er))"
  by pat_completeness auto
termination
proof (relation "measure (\<lambda>(fr, er). unat fr)")
  show "wf (measure (\<lambda>(fr :: u64, er :: int). unat fr))" by simp
next
  fix fr :: u64 and er :: int
  assume "0x1000000 \<le> fr"
  then have "0x1000000 \<le> unat fr" by (simp add: word_le_nat_alt)
  then have "unat fr div 2 < unat fr" by simp
  then show "((drop_bit 1 fr, er + 1), (fr, er)) \<in> measure (\<lambda>(fr, er). unat fr)"
    by (simp add: drop_bit_eq_div unat_div)
qed

function f32_norm_left :: "u64 \<Rightarrow> int \<Rightarrow> u64 \<times> int" where
  "f32_norm_left fr er =
     (if fr < 0x800000 \<and> er > 0 then f32_norm_left (push_bit 1 fr) (er - 1) else (fr, er))"
  by pat_completeness auto
termination
  by (relation "measure (\<lambda>(fr, er). nat er)") auto

declare f32_norm_right.simps [simp del] f32_norm_left.simps [simp del]

text \<open>The common tail of the three arithmetic routines: clamp and pack.\<close>

definition f32_pack :: "int \<Rightarrow> u64 \<Rightarrow> int \<Rightarrow> u32" where
  "f32_pack sr fr er =
     (if er \<ge> 255 then push_bit 31 (word_of_int sr) OR 0x7F800000
      else if er \<le> 0 then push_bit 31 (word_of_int sr)
      else push_bit 31 (word_of_int sr) OR push_bit 23 (word_of_int er)
             OR (ucast fr AND 0x7FFFFF))"

text \<open>
  \<open>__addsf3\<close> from \<open>u64 fr; int sr;\<close> on (the operands are aligned, \<open>ea = eb\<close>).
  Its overflow return is \<open>sr ? 0xFF800000 : 0x7F800000\<close>.
\<close>

definition addsf3_combine :: "int \<Rightarrow> int \<Rightarrow> u32 \<Rightarrow> u32 \<Rightarrow> int \<Rightarrow> u32" where
  "addsf3_combine sa sb fa fb ea =
     (let (fr, sr) =
            (if sa = sb then (ucast fa + ucast fb :: u64, sa)
             else if fa \<ge> fb then (ucast (fa - fb), sa)
             else (ucast (fb - fa), sb))
      in if fr = 0 then 0
         else
           let (fr1, er1) = f32_norm_right fr ea;
               (fr2, er2) = f32_norm_left fr1 er1
           in if er2 \<ge> 255 then (if sr \<noteq> 0 then 0xFF800000 else 0x7F800000)
              else if er2 \<le> 0 then push_bit 31 (word_of_int sr)
              else push_bit 31 (word_of_int sr) OR push_bit 23 (word_of_int er2)
                     OR (ucast fr2 AND 0x7FFFFF))"

definition addsf3 :: "u32 \<Rightarrow> u32 \<Rightarrow> u32" where
  "addsf3 ua ub =
     (if ua AND 0x7FFFFFFF = 0 then ub
      else if ub AND 0x7FFFFFFF = 0 then ua
      else
        let sa = f32_sign ua; sb = f32_sign ub;
            ea = f32_exp ua; eb = f32_exp ub;
            fa = f32_frac ua OR 0x800000;
            fb = f32_frac ub OR 0x800000
        in if ea = 0 then ub
           else if eb = 0 then ua
           else
             let diff = ea - eb
             in if diff > 0 then
                  (if diff > 24 then ua
                   else addsf3_combine sa sb fa (drop_bit (nat diff) fb) ea)
                else if diff < 0 then
                  (if - diff > 24 then ub
                   else addsf3_combine sa sb (drop_bit (nat (- diff)) fa) fb eb)
                else addsf3_combine sa sb fa fb ea)"

definition subsf3 :: "u32 \<Rightarrow> u32 \<Rightarrow> u32" where
  "subsf3 a ub = addsf3 a (ub XOR 0x80000000)"

definition mulsf3 :: "u32 \<Rightarrow> u32 \<Rightarrow> u32" where
  "mulsf3 ua ub =
     (let sa = f32_sign ua; sb = f32_sign ub;
          ea = f32_exp ua; eb = f32_exp ub;
          fa = f32_frac ua; fb = f32_frac ub;
          sr = sa XOR sb
      in if ua AND 0x7FFFFFFF = 0 \<or> ub AND 0x7FFFFFFF = 0 then push_bit 31 (word_of_int sr)
         else if ea = 255 \<or> eb = 255 then push_bit 31 (word_of_int sr) OR 0x7F800000
         else
           let fa = fa OR 0x800000;
               fb = fb OR 0x800000;
               fr = (ucast fa * ucast fb :: u64);
               er = ea + eb - 127;
               fr = drop_bit 23 fr;
               (fr, er) = (if fr \<ge> 0x1000000 then (drop_bit 1 fr, er + 1) else (fr, er))
           in f32_pack sr fr er)"

definition divsf3 :: "u32 \<Rightarrow> u32 \<Rightarrow> u32" where
  "divsf3 ua ub =
     (let sa = f32_sign ua; sb = f32_sign ub;
          ea = f32_exp ua; eb = f32_exp ub;
          fa = f32_frac ua; fb = f32_frac ub;
          sr = sa XOR sb
      in if ub AND 0x7FFFFFFF = 0 then push_bit 31 (word_of_int sr) OR 0x7F800000
         else if ua AND 0x7FFFFFFF = 0 then push_bit 31 (word_of_int sr)
         else
           let fa = fa OR 0x800000;
               fb = fb OR 0x800000;
               fr = (push_bit 24 (ucast fa) div ucast fb :: u64);
               er = ea - eb + 127;
               (fr, er) = f32_norm_right fr er;
               (fr, er) = f32_norm_left fr er
           in f32_pack sr fr er)"

definition fixunssfsi :: "u32 \<Rightarrow> u32" where
  "fixunssfsi ua =
     (if f32_sign ua \<noteq> 0 then 0
      else
        let e = f32_exp ua;
            f = f32_frac ua OR 0x800000
        in if e < 127 then 0
           else if e \<ge> 127 + 32 then 0xFFFFFFFF
           else
             let shift = e - 127 - 23
             in if shift \<ge> 0 then push_bit (nat shift) f else drop_bit (nat (- shift)) f)"

definition negsf2 :: "u32 \<Rightarrow> u32" where
  "negsf2 a = a XOR 0x80000000"

text \<open>
  \<^verbatim>\<open>while ((ua & 0x80000000) == 0) { ua <<= 1; e--; }\<close> of \<open>__floatsisf\<close> and
  \<open>__floatunsisf\<close>.  Entered with \<open>ua = 0\<close> the loop would never end, so it is a
  partial function: \<open>None\<close> stands for not returning.
\<close>

partial_function (option) f32_lead_loop :: "u32 \<Rightarrow> int \<Rightarrow> (u32 \<times> int) option" where
  "f32_lead_loop ua e =
     (if ua AND 0x80000000 = 0 then f32_lead_loop (push_bit 1 ua) (e - 1) else Some (ua, e))"

declare f32_lead_loop.simps [code]

text \<open>
  \<open>__floatsisf\<close>: the argument is the 32-bit pattern of the \<open>int\<close>; \<open>a < 0\<close> is the
  signed test, and \<open>(u32)(-(long long)a)\<close> is the 32-bit two's complement negation.
\<close>

definition floatsisf :: "u32 \<Rightarrow> u32 option" where
  "floatsisf a =
     (if a = 0 then Some 0
      else
        let (s, ua) = (if sint a < 0 then (1 :: int, - a) else (0, a))
        in case f32_lead_loop ua (127 + 31) of
             None \<Rightarrow> None
           | Some (ua, e) \<Rightarrow>
               Some (push_bit 31 (word_of_int s) OR push_bit 23 (word_of_int e)
                       OR (drop_bit 8 ua AND 0x7FFFFF)))"

definition floatunsisf :: "u32 \<Rightarrow> u32 option" where
  "floatunsisf a =
     (if a = 0 then Some 0
      else case f32_lead_loop a (127 + 31) of
             None \<Rightarrow> None
           | Some (ua, e) \<Rightarrow>
               Some (push_bit 23 (word_of_int e) OR (drop_bit 8 ua AND 0x7FFFFF)))"

section \<open>SoftFloat engine, double precision\<close>

definition f64_sign :: "u64 \<Rightarrow> int" where
  "f64_sign a = uint (drop_bit 63 a AND 1)"

definition f64_exp :: "u64 \<Rightarrow> int" where
  "f64_exp a = uint (drop_bit 52 a AND 0x7FF)"

definition f64_frac :: "u64 \<Rightarrow> u64" where
  "f64_frac a = a AND 0xFFFFFFFFFFFFF"

definition f64_is_nan :: "u64 \<Rightarrow> bool" where
  "f64_is_nan a \<longleftrightarrow> f64_exp a = 0x7FF \<and> f64_frac a \<noteq> 0"

definition f64_cmp :: "u64 \<Rightarrow> u64 \<Rightarrow> int \<Rightarrow> int \<times> int" where
  "f64_cmp ua ub unordered =
     (if f64_is_nan ua \<or> f64_is_nan ub then (0, 1)
      else if ua AND 0x7FFFFFFFFFFFFFFF = 0 \<and> ub AND 0x7FFFFFFFFFFFFFFF = 0
      then (0, unordered)
      else
        let sa = f64_sign ua; sb = f64_sign ub
        in if sa \<noteq> sb then (if sa \<noteq> 0 then - 1 else 1, unordered)
           else
             let ma = ua AND 0x7FFFFFFFFFFFFFFF;
                 mb = ub AND 0x7FFFFFFFFFFFFFFF
             in if ma = mb then (0, unordered)
                else if sa = 0 then (if ma < mb then - 1 else 1, unordered)
                else (if ma < mb then 1 else - 1, unordered))"

definition gtdf2 :: "u64 \<Rightarrow> u64 \<Rightarrow> int" where
  "gtdf2 a b = (let (cmp, unordered) = f64_cmp a b 0 in if unordered \<noteq> 0 then - 1 else cmp)"

definition gedf2 :: "u64 \<Rightarrow> u64 \<Rightarrow> int" where
  "gedf2 a b = (let (cmp, unordered) = f64_cmp a b 0 in if unordered \<noteq> 0 then - 1 else cmp)"

definition ltdf2 :: "u64 \<Rightarrow> u64 \<Rightarrow> int" where
  "ltdf2 a b = (let (cmp, unordered) = f64_cmp a b 0 in if unordered \<noteq> 0 then 1 else cmp)"

definition ledf2 :: "u64 \<Rightarrow> u64 \<Rightarrow> int" where
  "ledf2 a b = (let (cmp, unordered) = f64_cmp a b 0 in if unordered \<noteq> 0 then 1 else cmp)"

definition eqdf2 :: "u64 \<Rightarrow> u64 \<Rightarrow> int" where
  "eqdf2 a b = (let (cmp, unordered) = f64_cmp a b 0
                in if unordered \<noteq> 0 then 1 else if cmp = 0 then 0 else 1)"

definition nedf2 :: "u64 \<Rightarrow> u64 \<Rightarrow> int" where
  "nedf2 a b = (let (cmp, unordered) = f64_cmp a b 0
                in if unordered \<noteq> 0 then 1 else if cmp = 0 then 0 else 1)"

definition unorddf2 :: "u64 \<Rightarrow> u64 \<Rightarrow> int" where
  "unorddf2 ua ub =
     (if (f64_exp ua = 0x7FF \<and> f64_frac ua \<noteq> 0) \<or> (f64_exp ub = 0x7FF \<and> f64_frac ub \<noteq> 0)
      then 1 else 0)"

text \<open>\<open>mul_u64\<close> returns the pair \<open>(hi, lo)\<close> it stores through its two pointers.\<close>

definition mul_u64 :: "u64 \<Rightarrow> u64 \<Rightarrow> u64 \<times> u64" where
  "mul_u64 a b =
     (let a_lo = a AND 0xFFFFFFFF; a_hi = drop_bit 32 a;
          b_lo = b AND 0xFFFFFFFF; b_hi = drop_bit 32 b;
          p0 = a_lo * b_lo; p1 = a_lo * b_hi; p2 = a_hi * b_lo; p3 = a_hi * b_hi;
          mid = (p1 AND 0xFFFFFFFF) + (p2 AND 0xFFFFFFFF) + drop_bit 32 p0
      in (p3 + drop_bit 32 p1 + drop_bit 32 p2 + drop_bit 32 mid,
          push_bit 32 mid OR (p0 AND 0xFFFFFFFF)))"

text \<open>
  \<open>div_u128_u64\<close>: the body of the \<open>for\<close> loop, and the loop run for the number of
  iterations that remain (128 at the call).  The state is \<open>(hi, lo, q, r)\<close>.
\<close>

definition div_u128_u64_step :: "u64 \<Rightarrow> u64 \<times> u64 \<times> u64 \<times> u64 \<Rightarrow> u64 \<times> u64 \<times> u64 \<times> u64" where
  "div_u128_u64_step d st =
     (let (hi, lo, q, r) = st;
          r = push_bit 1 r OR drop_bit 63 hi;
          hi = push_bit 1 hi OR drop_bit 63 lo;
          lo = push_bit 1 lo;
          q = push_bit 1 q
      in if r \<ge> d then (hi, lo, q OR 1, r - d) else (hi, lo, q, r))"

primrec div_u128_u64_loop :: "nat \<Rightarrow> u64 \<Rightarrow> u64 \<times> u64 \<times> u64 \<times> u64 \<Rightarrow> u64 \<times> u64 \<times> u64 \<times> u64" where
  "div_u128_u64_loop 0 d st = st"
| "div_u128_u64_loop (Suc n) d st = div_u128_u64_loop n d (div_u128_u64_step d st)"

definition div_u128_u64 :: "u64 \<Rightarrow> u64 \<Rightarrow> u64 \<Rightarrow> u64" where
  "div_u128_u64 hi lo d = (let (hi', lo', q, r) = div_u128_u64_loop 128 d (hi, lo, 0, 0) in q)"

text \<open>
  \<^verbatim>\<open>while ((a & (1ULL << 63)) == 0) { a <<= 1; e--; }\<close> of \<open>u64_to_f64_bits\<close>; like
  its single-precision twin it does not return when entered with \<open>a = 0\<close>.
\<close>

partial_function (option) f64_lead_loop :: "u64 \<Rightarrow> int \<Rightarrow> (u64 \<times> int) option" where
  "f64_lead_loop a e =
     (if a AND push_bit 63 1 = 0 then f64_lead_loop (push_bit 1 a) (e - 1) else Some (a, e))"

declare f64_lead_loop.simps [code]

definition u64_to_f64_bits :: "u64 \<Rightarrow> int \<Rightarrow> u64 option" where
  "u64_to_f64_bits a sign =
     (if a = 0 then Some (push_bit 63 (word_of_int sign))
      else case f64_lead_loop a (1023 + 63) of
             None \<Rightarrow> None
           | Some (a, e) \<Rightarrow>
               let frac = drop_bit 11 a AND 0xFFFFFFFFFFFFF
               in Some (push_bit 63 (word_of_int sign) OR push_bit 52 (word_of_int e) OR frac))"

function f64_norm_right :: "u64 \<Rightarrow> int \<Rightarrow> u64 \<times> int" where
  "f64_norm_right fr er =
     (if fr \<ge> push_bit 53 1 then f64_norm_right (drop_bit 1 fr) (er + 1) else (fr, er))"
  by pat_completeness auto
termination
proof (relation "measure (\<lambda>(fr, er). unat fr)")
  show "wf (measure (\<lambda>(fr :: u64, er :: int). unat fr))" by simp
next
  fix fr :: u64 and er :: int
  assume "push_bit 53 1 \<le> fr"
  then have "2 ^ 53 \<le> unat fr" by (simp add: word_le_nat_alt)
  then have "0 < unat fr" by (simp add: order_less_le_trans [of 0 "2 ^ 53"])
  then have "unat fr div 2 < unat fr" by simp
  then show "((drop_bit 1 fr, er + 1), (fr, er)) \<in> measure (\<lambda>(fr, er). unat fr)"
    by (simp add: drop_bit_eq_div unat_div)
qed

function f64_norm_left :: "u64 \<Rightarrow> int \<Rightarrow> u64 \<times> int" where
  "f64_norm_left fr er =
     (if fr < push_bit 52 1 \<and> er > 0 then f64_norm_left (push_bit 1 fr) (er - 1) else (fr, er))"
  by pat_completeness auto
termination
  by (relation "measure (\<lambda>(fr, er). nat er)") auto

declare f64_norm_right.simps [simp del] f64_norm_left.simps [simp del]

definition f64_pack :: "int \<Rightarrow> u64 \<Rightarrow> int \<Rightarrow> u64" where
  "f64_pack sr fr er =
     (if er \<ge> 0x7FF then push_bit 63 (word_of_int sr) OR push_bit 52 0x7FF
      else if er \<le> 0 then push_bit 63 (word_of_int sr)
      else push_bit 63 (word_of_int sr) OR push_bit 52 (word_of_int er)
             OR (fr AND 0xFFFFFFFFFFFFF))"

text \<open>\<open>__adddf3\<close> from \<open>u64 fr; int sr;\<close> on.\<close>

definition adddf3_combine :: "int \<Rightarrow> int \<Rightarrow> u64 \<Rightarrow> u64 \<Rightarrow> int \<Rightarrow> u64" where
  "adddf3_combine sa sb fa fb ea =
     (let (fr, sr) =
            (if sa = sb then (fa + fb, sa)
             else if fa \<ge> fb then (fa - fb, sa)
             else (fb - fa, sb))
      in if fr = 0 then 0
         else
           let (fr1, er1) = f64_norm_right fr ea;
               (fr2, er2) = f64_norm_left fr1 er1
           in f64_pack sr fr2 er2)"

definition adddf3 :: "u64 \<Rightarrow> u64 \<Rightarrow> u64" where
  "adddf3 ua ub =
     (if ua AND 0x7FFFFFFFFFFFFFFF = 0 then ub
      else if ub AND 0x7FFFFFFFFFFFFFFF = 0 then ua
      else
        let sa = f64_sign ua; sb = f64_sign ub;
            ea = f64_exp ua; eb = f64_exp ub;
            fa = f64_frac ua;
            fb = f64_frac ub
        in if ea = 0 then ub
           else if eb = 0 then ua
           else if ea = 0x7FF then ua
           else if eb = 0x7FF then ub
           else
             let fa = fa OR push_bit 52 1;
                 fb = fb OR push_bit 52 1;
                 diff = ea - eb
             in if diff > 0 then
                  (if diff > 60 then ua
                   else adddf3_combine sa sb fa (drop_bit (nat diff) fb) ea)
                else if diff < 0 then
                  (if - diff > 60 then ub
                   else adddf3_combine sa sb (drop_bit (nat (- diff)) fa) fb eb)
                else adddf3_combine sa sb fa fb ea)"

definition subdf3 :: "u64 \<Rightarrow> u64 \<Rightarrow> u64" where
  "subdf3 a ub = adddf3 a (ub XOR push_bit 63 1)"

definition muldf3 :: "u64 \<Rightarrow> u64 \<Rightarrow> u64" where
  "muldf3 ua ub =
     (let sa = f64_sign ua; sb = f64_sign ub;
          ea = f64_exp ua; eb = f64_exp ub;
          fa = f64_frac ua; fb = f64_frac ub;
          sr = sa XOR sb
      in if ua AND 0x7FFFFFFFFFFFFFFF = 0 \<or> ub AND 0x7FFFFFFFFFFFFFFF = 0
         then push_bit 63 (word_of_int sr)
         else if ea = 0x7FF \<or> eb = 0x7FF
         then push_bit 63 (word_of_int sr) OR push_bit 52 0x7FF
         else
           let fa = fa OR push_bit 52 1;
               fb = fb OR push_bit 52 1;
               (hi, lo) = mul_u64 fa fb;
               er = ea + eb - 1023;
               fr = push_bit 12 hi OR drop_bit 52 lo;
               (fr, er) = (if fr \<ge> push_bit 53 1 then (drop_bit 1 fr, er + 1) else (fr, er))
           in f64_pack sr fr er)"

definition divdf3 :: "u64 \<Rightarrow> u64 \<Rightarrow> u64" where
  "divdf3 ua ub =
     (let sa = f64_sign ua; sb = f64_sign ub;
          ea = f64_exp ua; eb = f64_exp ub;
          fa = f64_frac ua; fb = f64_frac ub;
          sr = sa XOR sb
      in if ub AND 0x7FFFFFFFFFFFFFFF = 0
         then push_bit 63 (word_of_int sr) OR push_bit 52 0x7FF
         else if ua AND 0x7FFFFFFFFFFFFFFF = 0 then push_bit 63 (word_of_int sr)
         else if ea = 0x7FF \<or> eb = 0x7FF
         then push_bit 63 (word_of_int sr) OR push_bit 52 0x7FF
         else
           let fa = fa OR push_bit 52 1;
               fb = fb OR push_bit 52 1;
               er = ea - eb + 1023;
               num_hi = drop_bit 11 fa;
               num_lo = push_bit 53 fa;
               fr = div_u128_u64 num_hi num_lo fb;
               (fr, er) = f64_norm_right fr er;
               (fr, er) = f64_norm_left fr er
           in f64_pack sr fr er)"

definition negdf2 :: "u64 \<Rightarrow> u64" where
  "negdf2 a = a XOR push_bit 63 1"

text \<open>
  \<open>__floatsidf\<close>: \<open>(u64)(unsigned int)a\<close> zero-extends the 32-bit pattern;
  \<open>(~ua) + 1\<close> is then taken on all 64 bits.
\<close>

definition floatsidf :: "u32 \<Rightarrow> u64 option" where
  "floatsidf a =
     (let ua = (ucast a :: u64);
          (sign, ua) = (if sint a < 0 then (1 :: int, NOT ua + 1) else (0, ua))
      in u64_to_f64_bits ua sign)"

definition floatunsidf :: "u32 \<Rightarrow> u64 option" where
  "floatunsidf a = u64_to_f64_bits (ucast a) 0"

definition fixunsdfsi :: "u64 \<Rightarrow> u32" where
  "fixunsdfsi ua =
     (if f64_sign ua \<noteq> 0 then 0
      else
        let exp = f64_exp ua;
            frac = f64_frac ua OR push_bit 52 1
        in if exp < 1023 then 0
           else if exp \<ge> 1023 + 32 then 0xFFFFFFFF
           else
             let shift = exp - 1023 - 52;
                 result = (if shift \<ge> 0 then push_bit (nat shift) frac
                           else drop_bit (nat (- shift)) frac)
             in ucast result)"

definition fixunsdfdi :: "u64 \<Rightarrow> u64" where
  "fixunsdfdi ua =
     (if f64_sign ua \<noteq> 0 then 0
      else
        let exp = f64_exp ua;
            frac = f64_frac ua OR push_bit 52 1
        in if exp < 1023 then 0
           else if exp \<ge> 1023 + 64 then NOT 0
           else
             let shift = exp - 1023 - 52
             in if shift \<ge> 0 then push_bit (nat shift) frac
                else drop_bit (nat (- shift)) frac)"

subsection \<open>The value a bit pattern represents\<close>

text \<open>
  The reading of a bit pattern as a number (IEEE-754 binary32 and binary64, the data
  model of the specification): \<open>None\<close> for an infinity or a NaN, otherwise
  \<open>(-1) ^ sign * m * 2 ^ (e - bias - width)\<close> with \<open>m\<close> the fraction, plus the
  implicit bit when the exponent field is not zero.
\<close>

definition scale2 :: "int \<Rightarrow> real" where
  "scale2 k = (if k \<ge> 0 then 2 ^ nat k else 1 / 2 ^ nat (- k))"

definition f32_value :: "u32 \<Rightarrow> real option" where
  "f32_value w =
     (let s = (if bit w 31 then - 1 else 1 :: real);
          e = uint (drop_bit 23 w AND 0xFF);
          f = uint (w AND 0x7FFFFF)
      in if e = 255 then None
         else if e = 0 then Some (s * real_of_int f * scale2 (- 149))
         else Some (s * real_of_int (2 ^ 23 + f) * scale2 (e - 150)))"

definition f64_value :: "u64 \<Rightarrow> real option" where
  "f64_value w =
     (let s = (if bit w 63 then - 1 else 1 :: real);
          e = uint (drop_bit 52 w AND 0x7FF);
          f = uint (w AND 0xFFFFFFFFFFFFF)
      in if e = 2047 then None
         else if e = 0 then Some (s * real_of_int f * scale2 (- 1074))
         else Some (s * real_of_int (2 ^ 52 + f) * scale2 (e - 1075)))"

section \<open>Segmented allocator (frostbite_alloc.c)\<close>

text \<open>
  The file-scope statics form the heap state.  \<open>fb_heap_use_segments\<close> is an \<open>int\<close>
  that only ever holds 0 or 1.  Pointers are their 64-bit addresses, \<open>NULL\<close> is 0.
\<close>

record heap =
  fb_heap_ptr :: u64
  fb_heap_end :: u64
  fb_heap_segment_start :: u32
  fb_heap_segment_count :: u32
  fb_heap_segment_index :: u32
  fb_heap_segment_bytes :: u64
  fb_heap_segment_offset :: u64
  fb_heap_use_segments :: bool

text \<open>
  \<open>fb_alloc_panic\<close> prints its message and calls \<open>fb_exit(1)\<close>: the process ends.
  Each call site is one constructor.
\<close>

datatype panic =
    Heap_Not_Configured
  | Heap_Offset_Exceeds_Size
  | Base_Not_Segment_Address
  | Invalid_Segment_Configuration

definition FB_HEAP_SEGMENT :: u32 where "FB_HEAP_SEGMENT = 1"
definition FB_HEAP_OFFSET :: u64 where "FB_HEAP_OFFSET = 0"
definition FB_RAM_BYTES :: u64 where "FB_RAM_BYTES = 4 * 1024 * 1024"
definition FB_HEAP_SEGMENT_COUNT :: u32 where "FB_HEAP_SEGMENT_COUNT = 1"

definition FB_SEGMENT_ADDR :: "u32 \<Rightarrow> u64 \<Rightarrow> u64" where
  "FB_SEGMENT_ADDR seg offset = push_bit 28 (ucast seg) OR (offset AND 0x0FFFFFFF)"

text \<open>The initial values of the statics.\<close>

definition heap_static_init :: heap where
  "heap_static_init =
     \<lparr> fb_heap_ptr = 0, fb_heap_end = 0,
       fb_heap_segment_start = FB_HEAP_SEGMENT,
       fb_heap_segment_count = FB_HEAP_SEGMENT_COUNT,
       fb_heap_segment_index = 0,
       fb_heap_segment_bytes = FB_RAM_BYTES,
       fb_heap_segment_offset = FB_HEAP_OFFSET,
       fb_heap_use_segments = True \<rparr>"


definition fb_is_segment_addr :: "u64 \<Rightarrow> bool" where
  "fb_is_segment_addr addr \<longleftrightarrow> drop_bit 28 addr AND 0x0F \<noteq> 0"



definition fb_heap_init :: "u64 \<Rightarrow> u64 \<Rightarrow> heap \<Rightarrow> panic + heap" where
  "fb_heap_init base sz s =
     (if base \<noteq> 0 \<and> sz \<noteq> 0 then
        (if \<not> fb_is_segment_addr base then Inl Base_Not_Segment_Address
         else Inr (s\<lparr>fb_heap_use_segments := False,
                     fb_heap_ptr := base,
                     fb_heap_end := base + sz\<rparr>))
      else Inr (s\<lparr>fb_heap_use_segments := True, fb_heap_ptr := 0, fb_heap_end := 0\<rparr>))"






text \<open>
  The segment identifier of an address as the specification's encoding
  \<open>address = (segment_id << 28) | (offset & 0x0FFFFFFF)\<close> reads it: everything above
  the 28 offset bits.
\<close>

definition segment_id_of :: "u64 \<Rightarrow> u64" where
  "segment_id_of addr = drop_bit 28 addr"

subsection \<open>Notions used to state the allocator's properties\<close>














section \<open>Properties of the SoftFloat engine\<close>

subsection \<open>Decoding\<close>

lemma f32_sign_bit: "f32_sign a = (if bit a 31 then 1 else 0)"
  by (simp add: f32_sign_def and_one_eq mod_2_eq_odd bit_iff_odd_drop_bit)

lemma f64_sign_bit: "f64_sign a = (if bit a 63 then 1 else 0)"
  by (simp add: f64_sign_def and_one_eq mod_2_eq_odd bit_iff_odd_drop_bit)

lemma unat_ucast_u32: "unat (ucast (w :: u32) :: u64) = unat w"
proof -
  have "unat w < 2 ^ 32" using unsigned_less [of w] by simp
  then have "unat w < 2 ^ 64" by (rule order_less_trans) simp
  then show ?thesis by (simp add: unsigned_ucast_eq take_bit_nat_eq_self)
qed

lemma f32_zero_magnitude:
  assumes a: "v AND 0x7FFFFFFF = 0" and nz: "v \<noteq> 0"
  shows "v = (0x80000000 :: u32)"
proof -
  have m: "(0x7FFFFFFF :: u32) = mask 31" by (simp add: mask_eq_exp_minus_1)
  from a have "take_bit 31 v = 0" by (simp add: m take_bit_eq_mask)
  then have "unat (take_bit 31 v) = 0" by simp
  then have md: "unat v mod 2 ^ 31 = 0" by (simp add: take_bit_eq_mod unat_mod)
  have lt: "unat v < 2 ^ 32" using unsigned_less [of v] by simp
  have "unat v \<noteq> 0" using nz by (simp add: unat_eq_0)
  moreover from md obtain k where k: "unat v = 2 ^ 31 * k"
    by (auto simp add: mod_eq_0_iff_dvd)
  moreover from lt k have "k < 2" by simp
  ultimately have "unat v = 2 ^ 31" by (cases k) auto
  then have "unat v = unat (0x80000000 :: u32)" by simp
  then show ?thesis by (simp only: word_unat_eq_iff)
qed

lemma f64_zero_magnitude:
  assumes a: "v AND 0x7FFFFFFFFFFFFFFF = 0" and nz: "v \<noteq> 0"
  shows "v = (0x8000000000000000 :: u64)"
proof -
  have m: "(0x7FFFFFFFFFFFFFFF :: u64) = mask 63" by (simp add: mask_eq_exp_minus_1)
  from a have "take_bit 63 v = 0" by (simp add: m take_bit_eq_mask)
  then have "unat (take_bit 63 v) = 0" by simp
  then have md: "unat v mod 2 ^ 63 = 0" by (simp add: take_bit_eq_mod unat_mod)
  have lt: "unat v < 2 ^ 64" using unsigned_less [of v] by simp
  have "unat v \<noteq> 0" using nz by (simp add: unat_eq_0)
  moreover from md obtain k where k: "unat v = 2 ^ 63 * k"
    by (auto simp add: mod_eq_0_iff_dvd)
  moreover from lt k have "k < 2" by simp
  ultimately have "unat v = 2 ^ 63" by (cases k) auto
  then have "unat v = unat (0x8000000000000000 :: u64)" by simp
  then show ?thesis by (simp only: word_unat_eq_iff)
qed

subsection \<open>Comparisons with a NaN operand\<close>

text \<open>
  Claim C9.  When at least one operand is a NaN (exponent field at its maximum,
  fraction not zero), \<open>__unordsf2\<close> returns 1, \<open>__gtsf2\<close> and \<open>__gesf2\<close> return
  \<open>-1\<close>, \<open>__ltsf2\<close> and \<open>__lesf2\<close> return 1, and \<open>__eqsf2\<close> and \<open>__nesf2\<close> return
  a nonzero value; the same holds for the double-precision routines.
\<close>

theorem nan_comparisons:
  "(f32_is_nan a \<or> f32_is_nan b \<longrightarrow>
      unordsf2 a b = 1 \<and> gtsf2 a b = - 1 \<and> gesf2 a b = - 1 \<and> ltsf2 a b = 1 \<and> lesf2 a b = 1
      \<and> eqsf2 a b \<noteq> 0 \<and> nesf2 a b \<noteq> 0) \<and>
   (f64_is_nan c \<or> f64_is_nan d \<longrightarrow>
      unorddf2 c d = 1 \<and> gtdf2 c d = - 1 \<and> gedf2 c d = - 1 \<and> ltdf2 c d = 1 \<and> ledf2 c d = 1
      \<and> eqdf2 c d \<noteq> 0 \<and> nedf2 c d \<noteq> 0)"
  by (auto simp add: f32_cmp_def f64_cmp_def f32_is_nan_def f64_is_nan_def
      unordsf2_def gtsf2_def gesf2_def ltsf2_def lesf2_def eqsf2_def nesf2_def
      unorddf2_def gtdf2_def gedf2_def ltdf2_def ledf2_def eqdf2_def nedf2_def)

theorem nan_comparisons_witness:
  "f32_is_nan 0x7FC00000 \<and> f64_is_nan 0xFFF8000000000001 \<and>
   unordsf2 0x7FC00000 0x3F800000 = 1 \<and> gtsf2 0x7FC00000 0x3F800000 = - 1 \<and>
   ltsf2 0x7FC00000 0x3F800000 = 1 \<and> eqsf2 0x7FC00000 0x3F800000 \<noteq> 0 \<and>
   unorddf2 0 0xFFF8000000000001 = 1 \<and> gedf2 0 0xFFF8000000000001 = - 1 \<and>
   ledf2 0 0xFFF8000000000001 = 1 \<and> nedf2 0 0xFFF8000000000001 \<noteq> 0"
proof -
  have a: "f32_is_nan 0x7FC00000"
    by (simp add: f32_is_nan_def f32_exp_def f32_frac_def)
  have b: "f64_is_nan 0xFFF8000000000001"
    by (simp add: f64_is_nan_def f64_exp_def f64_frac_def)
  show ?thesis
    using a b nan_comparisons [of "0x7FC00000" "0x3F800000" 0 "0xFFF8000000000001"]
    by simp
qed

subsection \<open>Unsigned conversion of a negative value\<close>

text \<open>
  Claim C10.  For every bit pattern whose sign bit is set (negative values, negative
  zero, negative infinity and NaNs with the sign bit set alike), \<open>__fixunssfsi\<close>,
  \<open>__fixunsdfsi\<close> and \<open>__fixunsdfdi\<close> return 0.
\<close>

theorem fixuns_sign_set:
  "(bit a 31 \<longrightarrow> fixunssfsi a = 0) \<and> (bit d 63 \<longrightarrow> fixunsdfsi d = 0 \<and> fixunsdfdi d = 0)"
  by (simp add: fixunssfsi_def fixunsdfsi_def fixunsdfdi_def f32_sign_bit f64_sign_bit)

theorem fixuns_sign_set_witness:
  "bit (0xC0490FDB :: u32) 31 \<and> fixunssfsi 0xC0490FDB = 0 \<and>
   bit (0xFFF8000000000000 :: u64) 63 \<and> fixunsdfsi 0xFFF8000000000000 = 0 \<and>
   fixunsdfdi 0xFFF8000000000000 = 0"
proof -
  have a: "bit (0xC0490FDB :: u32) 31" by simp
  have b: "bit (0xFFF8000000000000 :: u64) 63" by simp
  show ?thesis
    using a b fixuns_sign_set [of "0xC0490FDB" "0xFFF8000000000000"] by simp
qed

subsection \<open>Special operands of multiplication\<close>

text \<open>
  Claim C7.  \<open>__mulsf3\<close> and \<open>__muldf3\<close>: if either operand has zero magnitude the
  result is the zero whose sign bit is the XOR of the operands' sign bits; otherwise,
  if either operand's exponent field is at its maximum (an infinity or a NaN), the
  result is the infinity whose sign bit is that XOR, whatever the fractions were.
\<close>

theorem mul_special_cases:
  "(a AND 0x7FFFFFFF = 0 \<or> b AND 0x7FFFFFFF = 0 \<longrightarrow>
      mulsf3 a b = (if bit a 31 = bit b 31 then 0 else 0x80000000)) \<and>
   (a AND 0x7FFFFFFF \<noteq> 0 \<and> b AND 0x7FFFFFFF \<noteq> 0 \<and> (f32_exp a = 255 \<or> f32_exp b = 255) \<longrightarrow>
      mulsf3 a b = (if bit a 31 = bit b 31 then 0x7F800000 else 0xFF800000)) \<and>
   (c AND 0x7FFFFFFFFFFFFFFF = 0 \<or> d AND 0x7FFFFFFFFFFFFFFF = 0 \<longrightarrow>
      muldf3 c d = (if bit c 63 = bit d 63 then 0 else 0x8000000000000000)) \<and>
   (c AND 0x7FFFFFFFFFFFFFFF \<noteq> 0 \<and> d AND 0x7FFFFFFFFFFFFFFF \<noteq> 0
      \<and> (f64_exp c = 2047 \<or> f64_exp d = 2047) \<longrightarrow>
      muldf3 c d = (if bit c 63 = bit d 63 then 0x7FF0000000000000 else 0xFFF0000000000000))"
  by (simp add: mulsf3_def muldf3_def f32_sign_bit f64_sign_bit Let_def)

theorem mul_special_cases_witness:
  "(0x80000000 :: u32) AND 0x7FFFFFFF = 0 \<and> mulsf3 0x80000000 0x7FC00000 = 0x80000000 \<and>
   f32_exp 0x7FC00001 = 255 \<and> mulsf3 0x7FC00001 0xBF800000 = 0xFF800000 \<and>
   (0 :: u64) AND 0x7FFFFFFFFFFFFFFF = 0 \<and> muldf3 0x3FF0000000000000 0 = 0 \<and>
   f64_exp 0xFFF0000000000000 = 2047 \<and>
   muldf3 0x3FF0000000000000 0xFFF0000000000000 = 0xFFF0000000000000"
proof -
  have a: "(0x80000000 :: u32) AND 0x7FFFFFFF = 0" by simp
  have b: "f32_exp 0x7FC00001 = 255" by (simp add: f32_exp_def)
  have c: "(0 :: u64) AND 0x7FFFFFFFFFFFFFFF = 0" by simp
  have d: "f64_exp 0xFFF0000000000000 = 2047" by (simp add: f64_exp_def)
  show ?thesis
    using a b c d
      mul_special_cases [of "0x80000000" "0x7FC00000" "0x3FF0000000000000" 0]
      mul_special_cases [of "0x7FC00001" "0xBF800000" "0x3FF0000000000000" "0xFFF0000000000000"]
    by simp
qed

subsection \<open>Special operands of division\<close>

text \<open>
  Claim C8, as the code has it.  \<open>__divsf3\<close> and \<open>__divdf3\<close> test the divisor first:
  a zero-magnitude divisor gives the infinity whose sign bit is the XOR of the
  operands' sign bits for every dividend, a zero-magnitude dividend included; a
  zero-magnitude dividend with a divisor of nonzero magnitude gives the zero with
  that sign.  In particular \<open>1.0 / 0.0\<close> is \<open>0x7F800000\<close>.
\<close>

theorem div_special_cases:
  "(b AND 0x7FFFFFFF = 0 \<longrightarrow>
      divsf3 a b = (if bit a 31 = bit b 31 then 0x7F800000 else 0xFF800000)) \<and>
   (a AND 0x7FFFFFFF = 0 \<and> b AND 0x7FFFFFFF \<noteq> 0 \<longrightarrow>
      divsf3 a b = (if bit a 31 = bit b 31 then 0 else 0x80000000)) \<and>
   (d AND 0x7FFFFFFFFFFFFFFF = 0 \<longrightarrow>
      divdf3 c d = (if bit c 63 = bit d 63 then 0x7FF0000000000000 else 0xFFF0000000000000)) \<and>
   (c AND 0x7FFFFFFFFFFFFFFF = 0 \<and> d AND 0x7FFFFFFFFFFFFFFF \<noteq> 0 \<longrightarrow>
      divdf3 c d = (if bit c 63 = bit d 63 then 0 else 0x8000000000000000)) \<and>
   divsf3 0x3F800000 0 = 0x7F800000"
  by (simp add: divsf3_def divdf3_def f32_sign_bit f64_sign_bit Let_def)

theorem div_special_cases_witness:
  "(0x80000000 :: u32) AND 0x7FFFFFFF = 0 \<and> divsf3 0x40490FDB 0x80000000 = 0xFF800000 \<and>
   (0x40490FDB :: u32) AND 0x7FFFFFFF \<noteq> 0 \<and> divsf3 0x80000000 0x40490FDB = 0x80000000 \<and>
   (0 :: u64) AND 0x7FFFFFFFFFFFFFFF = 0 \<and>
   divdf3 0xBFF0000000000000 0 = 0xFFF0000000000000 \<and>
   (0xBFF0000000000000 :: u64) AND 0x7FFFFFFFFFFFFFFF \<noteq> 0 \<and>
   divdf3 0 0xBFF0000000000000 = 0x8000000000000000"
proof -
  have a: "(0x80000000 :: u32) AND 0x7FFFFFFF = 0" by simp
  have b: "(0x40490FDB :: u32) AND 0x7FFFFFFF \<noteq> 0" by simp
  have c: "(0 :: u64) AND 0x7FFFFFFFFFFFFFFF = 0" by simp
  have d: "(0xBFF0000000000000 :: u64) AND 0x7FFFFFFFFFFFFFFF \<noteq> 0" by simp
  show ?thesis
    using a b c d
      div_special_cases [of "0x80000000" "0x40490FDB" 0 "0xBFF0000000000000"]
      div_special_cases [of "0x40490FDB" "0x80000000" "0xBFF0000000000000" 0]
    by simp
qed

text \<open>
  Zero divided by zero: the dividend has zero magnitude, yet the result is an
  infinity, not a zero.
\<close>

theorem div_zero_by_zero_is_infinity:
  "(0 :: u32) AND 0x7FFFFFFF = 0 \<and> divsf3 0 0 = 0x7F800000 \<and>
   (0x7F800000 :: u32) AND 0x7FFFFFFF \<noteq> 0 \<and>
   (0 :: u64) AND 0x7FFFFFFFFFFFFFFF = 0 \<and> divdf3 0 0 = 0x7FF0000000000000 \<and>
   (0x7FF0000000000000 :: u64) AND 0x7FFFFFFFFFFFFFFF \<noteq> 0"
  by (simp add: divsf3_def divdf3_def f32_sign_bit f64_sign_bit Let_def)

subsection \<open>Adding positive zero, negating twice\<close>

text \<open>
  Claim C3, as the code has it.  \<open>__addsf3 (v, +0)\<close> returns \<open>v\<close> bit for bit for
  every \<open>v\<close> other than negative zero, and \<open>+0\<close> for negative zero (a zero-magnitude
  first operand makes the routine return the second operand); the same holds for
  \<open>__adddf3\<close>.  Negating twice returns the operand bit for bit, in both precisions.
\<close>

theorem add_zero_neg_involution:
  "(v \<noteq> 0x80000000 \<longrightarrow> addsf3 v 0 = v) \<and> addsf3 0x80000000 0 = 0 \<and>
   (d \<noteq> 0x8000000000000000 \<longrightarrow> adddf3 d 0 = d) \<and> adddf3 0x8000000000000000 0 = 0 \<and>
   negsf2 (negsf2 v) = v \<and> negdf2 (negdf2 d) = d"
proof -
  have "addsf3 v 0 = v" if "v \<noteq> 0x80000000"
    using that f32_zero_magnitude [of v] by (auto simp add: addsf3_def)
  moreover have "adddf3 d 0 = d" if "d \<noteq> 0x8000000000000000"
    using that f64_zero_magnitude [of d] by (auto simp add: adddf3_def)
  moreover have "addsf3 0x80000000 0 = 0" by (simp add: addsf3_def)
  moreover have "adddf3 0x8000000000000000 0 = 0" by (simp add: adddf3_def)
  moreover have "negsf2 (negsf2 v) = v" by (simp add: negsf2_def xor.assoc)
  moreover have "negdf2 (negdf2 d) = d" by (simp add: negdf2_def xor.assoc)
  ultimately show ?thesis by blast
qed

theorem add_zero_neg_involution_witness:
  "(0x3F800000 :: u32) \<noteq> 0x80000000 \<and> addsf3 0x3F800000 0 = 0x3F800000 \<and>
   (0xC000000000000000 :: u64) \<noteq> 0x8000000000000000 \<and>
   adddf3 0xC000000000000000 0 = 0xC000000000000000"
proof -
  have a: "(0x3F800000 :: u32) \<noteq> 0x80000000" by simp
  have b: "(0xC000000000000000 :: u64) \<noteq> 0x8000000000000000" by simp
  show ?thesis
    using a b add_zero_neg_involution [of "0x3F800000" "0xC000000000000000"] by simp
qed

text \<open>Negative zero is finite and not a NaN, and adding \<open>+0\<close> to it changes its bits.\<close>

theorem add_zero_negative_zero_changes:
  "\<not> f32_is_nan 0x80000000 \<and> f32_exp 0x80000000 \<noteq> 255 \<and> addsf3 0x80000000 0 \<noteq> 0x80000000 \<and>
   \<not> f64_is_nan 0x8000000000000000 \<and> f64_exp 0x8000000000000000 \<noteq> 2047 \<and>
   adddf3 0x8000000000000000 0 \<noteq> 0x8000000000000000"
  by (simp add: addsf3_def adddf3_def f32_is_nan_def f64_is_nan_def f32_exp_def f64_exp_def)

subsection \<open>Conversion of a 32-bit integer\<close>

text \<open>The leading-zero loops return on every nonzero argument.\<close>

lemma u32_top_bit_clear: "(ua :: u32) AND 0x80000000 = 0 \<longleftrightarrow> unat ua < 2 ^ 31"
proof -
  have lt: "unat ua < 2 ^ 32" using unsigned_less [of ua] by simp
  have "(0x80000000 :: u32) = 2 ^ 31" by simp
  then have "ua AND 0x80000000 = 0 \<longleftrightarrow> \<not> bit ua 31"
    by (simp only: and_exp_eq_0_iff_not_bit)
  also have "\<dots> \<longleftrightarrow> even (unat ua div 2 ^ 31)"
  proof -
    have "bit ua 31 \<longleftrightarrow> bit (unat ua) 31" by (simp add: bit_unsigned_iff)
    then show ?thesis by (simp add: bit_iff_odd)
  qed
  also have "\<dots> \<longleftrightarrow> unat ua < 2 ^ 31"
  proof -
    have "unat ua div 2 ^ 31 < 2" using lt by (simp add: less_mult_imp_div_less)
    then have "even (unat ua div 2 ^ 31) \<longleftrightarrow> unat ua div 2 ^ 31 = 0" 
      by (cases "unat ua div 2 ^ 31") auto
    then show ?thesis by (simp add: div_eq_0_iff)
  qed
  finally show ?thesis .
qed

lemma f32_lead_loop_returns:
  "ua \<noteq> 0 \<Longrightarrow> \<exists>k ua'. f32_lead_loop ua e = Some (ua', e - int k)
      \<and> unat ua' = unat ua * 2 ^ k \<and> 2 ^ 31 \<le> unat ua'"
proof (induction "2 ^ 32 - unat ua" arbitrary: ua e rule: less_induct)
  case less
  have lt: "unat ua < 2 ^ 32" using unsigned_less [of ua] by simp
  show ?case
  proof (cases "ua AND 0x80000000 = 0")
    case False
    then have "f32_lead_loop ua e = Some (ua, e - int 0)"
      by (subst f32_lead_loop.simps) simp
    moreover have "2 ^ 31 \<le> unat ua" using False by (simp add: u32_top_bit_clear)
    ultimately show ?thesis by (intro exI [of _ 0] exI [of _ ua]) simp
  next
    case True
    then have small: "unat ua < 2 ^ 31" by (simp add: u32_top_bit_clear)
    have nz: "0 < unat ua" using less.prems by (simp add: unat_gt_0)
    have "unat (push_bit 1 ua) = (unat ua * 2) mod 2 ^ 32"
      by (simp add: push_bit_eq_mult unat_word_ariths)
    then have dbl: "unat (push_bit 1 ua) = 2 * unat ua"
      using small by simp
    then have nz': "push_bit 1 ua \<noteq> 0" using nz by (metis mult_eq_0_iff not_less0 unat_0 zero_neq_numeral)
    have "2 ^ 32 - unat (push_bit 1 ua) < 2 ^ 32 - unat ua"
      using dbl nz lt by simp
    from less.hyps [OF this nz', of "e - 1"] obtain k ua'
      where r: "f32_lead_loop (push_bit 1 ua) (e - 1) = Some (ua', e - 1 - int k)"
        and u: "unat ua' = unat (push_bit 1 ua) * 2 ^ k" and t: "2 ^ 31 \<le> unat ua'"
      by blast
    have "f32_lead_loop ua e = Some (ua', e - int (Suc k))"
      using True r by (subst f32_lead_loop.simps) simp
    moreover have "unat ua' = unat ua * 2 ^ Suc k" using u dbl by simp
    ultimately show ?thesis using t by blast
  qed
qed


lemma f32_unpack:
  fixes S E F :: u32
  defines "w \<equiv> push_bit 31 S OR push_bit 23 (take_bit 8 E) OR take_bit 23 F"
  shows "drop_bit 23 w AND mask 8 = take_bit 8 E"
    and "w AND mask 23 = take_bit 23 F"
    and "bit w 31 \<longleftrightarrow> bit S 0"
proof -
  show "drop_bit 23 w AND mask 8 = take_bit 8 E"
    unfolding w_def by (rule bit_word_eqI) (auto simp add: bit_simps)
  show "w AND mask 23 = take_bit 23 F"
    unfolding w_def by (rule bit_word_eqI) (auto simp add: bit_simps)
  show "bit w 31 \<longleftrightarrow> bit S 0"
    unfolding w_def by (auto simp add: bit_simps)
qed

lemma scale2_cancel: "real (n * 2 ^ d) * scale2 (- int d) = real n"
  by (simp add: scale2_def)

lemma f32_value_pack:
  assumes s: "s = 0 \<or> s = 1" and e: "0 < e" "e < 255" and m: "2 ^ 31 \<le> unat ua"
  shows "f32_value (push_bit 31 (word_of_int s) OR push_bit 23 (word_of_int e)
                     OR (drop_bit 8 ua AND 0x7FFFFF))
         = Some ((if s = 1 then - 1 else 1) * real (unat ua div 256) * scale2 (e - 150))"
proof -
  let ?E = "word_of_int e :: u32" and ?S = "word_of_int s :: u32"
  let ?w = "push_bit 31 ?S OR push_bit 23 ?E OR (drop_bit 8 ua AND 0x7FFFFF)"
  have m8: "(0xFF :: u32) = mask 8" and m23: "(0x7FFFFF :: u32) = mask 23"
    by (simp_all add: mask_eq_exp_minus_1)
  have uE: "uint ?E = e" using e by (simp add: uint_word_of_int take_bit_int_eq_self)
  have "uint (take_bit 8 ?E) = e" using e by (simp add: unsigned_take_bit_eq uE take_bit_int_eq_self)
  then have tE: "take_bit 8 ?E = ?E" by (metis uE word_uint_eq_iff)
  have w: "?w = push_bit 31 ?S OR push_bit 23 (take_bit 8 ?E) OR take_bit 23 (drop_bit 8 ua)"
    unfolding tE by (simp add: m23 take_bit_eq_mask)
  have f1: "uint (drop_bit 23 ?w AND 0xFF) = e"
    unfolding w m8 f32_unpack(1) by (simp add: tE uE)
  have lt: "unat ua < 2 ^ 32" using unsigned_less [of ua] by simp
  have "unat (take_bit 23 (drop_bit 8 ua)) = (unat ua div 256) mod 2 ^ 23"
    by (simp add: drop_bit_eq_div take_bit_eq_mod unat_mod unat_div)
  also have "\<dots> = unat ua div 256 - 2 ^ 23"
  proof -
    have "2 ^ 23 \<le> unat ua div 256" "unat ua div 256 < 2 ^ 24" using m lt by simp_all
    then show ?thesis by (simp add: mod_if le_mod_geq)
  qed
  finally have "unat (take_bit 23 (drop_bit 8 ua)) = unat ua div 256 - 2 ^ 23" .
  moreover have "?w AND 0x7FFFFF = take_bit 23 (drop_bit 8 ua)"
    by (subst w) (simp only: m23 f32_unpack(2))
  ultimately have "unat (?w AND 0x7FFFFF) = unat ua div 256 - 2 ^ 23" by simp
  moreover have "2 ^ 23 \<le> unat ua div 256" using m by simp
  ultimately have f2: "2 ^ 23 + uint (?w AND 0x7FFFFF) = int (unat ua div 256)"
    by (simp add: uint_nat)
  have f3: "bit ?w 31 \<longleftrightarrow> s = 1"
    unfolding w f32_unpack(3) using s by auto
  show ?thesis
    unfolding f32_value_def Let_def f1 f2 f3 using e by simp
qed


lemma u32_magnitude:
  fixes a :: u32
  shows "uint (if sint a < 0 then - a else a) = \<bar>sint a\<bar>"
proof -
  have r: "- (2 ^ 31) \<le> sint a" "sint a < 2 ^ 31"
    using sint_ge [of a] sint_lt [of a] by simp_all
  have a: "a = word_of_int (sint a)" by simp
  show ?thesis
  proof (cases "sint a < 0")
    case True
    have "uint (- a) = uint (word_of_int (- sint a) :: u32)" by simp
    also have "\<dots> = (- sint a) mod 2 ^ 32"
      by (simp only: uint_word_of_int) simp
    finally have "uint (- a) = (- sint a) mod 2 ^ 32" .
    also have "\<dots> = - sint a" using True r by simp
    finally show ?thesis using True by simp
  next
    case False
    have "uint a = uint (word_of_int (sint a) :: u32)" by simp
    also have "\<dots> = sint a mod 2 ^ 32"
      by (simp only: uint_word_of_int) simp
    finally have "uint a = sint a mod 2 ^ 32" .
    also have "\<dots> = sint a" using False r by simp
    finally show ?thesis using False by simp
  qed
qed

lemma floatsisf_value:
  assumes lo: "- (2 ^ 24) \<le> sint a" and hi: "sint a \<le> 2 ^ 24"
  shows "\<exists>w. floatsisf a = Some w \<and> f32_value w = Some (real_of_int (sint a))"
proof (cases "a = 0")
  case True
  then show ?thesis by (simp add: floatsisf_def f32_value_def)
next
  case False
  define ua where "ua = (if sint a < 0 then - a else a)"
  define s :: int where "s = (if sint a < 0 then 1 else 0)"
  define n where "n = unat ua"
  have mag: "int n = \<bar>sint a\<bar>" unfolding n_def ua_def using u32_magnitude [of a] by simp
  have nz: "ua \<noteq> 0" using False by (auto simp add: ua_def)
  then have n0: "0 < n" by (simp add: n_def unat_gt_0)
  have n24: "n \<le> 2 ^ 24" using mag lo hi by (simp; linarith)
  from f32_lead_loop_returns [OF nz, of "127 + 31"] obtain k ua'
    where loop: "f32_lead_loop ua (127 + 31) = Some (ua', 127 + 31 - int k)"
      and u: "unat ua' = n * 2 ^ k" and top: "2 ^ 31 \<le> unat ua'"
    unfolding n_def by blast
  have lt: "unat ua' < 2 ^ 32" using unsigned_less [of ua'] by simp
  have k7: "7 \<le> k"
  proof (rule ccontr)
    assume "\<not> 7 \<le> k"
    then have "k \<le> 6" by simp
    then have "(2 :: nat) ^ k \<le> 2 ^ 6" by (intro power_increasing) simp_all
    then have "n * 2 ^ k \<le> 2 ^ 24 * 2 ^ 6" using n24 by (intro mult_le_mono)
    then show False using top u by simp
  qed
  have k31: "k \<le> 31"
  proof (rule ccontr)
    assume "\<not> k \<le> 31"
    then have "32 \<le> k" by simp
    then have "(2 :: nat) ^ 32 \<le> 2 ^ k" by (intro power_increasing) simp_all
    also have "\<dots> \<le> n * 2 ^ k" using n0 by simp
    finally show False using lt u by simp
  qed
  let ?e = "127 + 31 - int k"
  have res: "floatsisf a = Some (push_bit 31 (word_of_int s) OR push_bit 23 (word_of_int ?e)
                OR (drop_bit 8 ua' AND 0x7FFFFF))"
    using False loop unfolding ua_def s_def
    by (cases "sint a < 0") (simp_all add: floatsisf_def)
  have val: "f32_value (push_bit 31 (word_of_int s) OR push_bit 23 (word_of_int ?e)
                OR (drop_bit 8 ua' AND 0x7FFFFF))
        = Some ((if s = 1 then - 1 else 1) * real (unat ua' div 256) * scale2 (?e - 150))"
    using k7 k31 top by (intro f32_value_pack) (auto simp add: s_def)
  have "real (unat ua' div 256) * scale2 (?e - 150) = real n"
  proof (cases "k = 7")
    case True
    then have "n * 128 \<ge> 2 ^ 31" using top u by simp
    then have "n = 2 ^ 24" using n24 by simp
    then show ?thesis using True u by (simp add: scale2_def)
  next
    case False
    then have "8 \<le> k" using k7 by simp
    then obtain j where j: "k = 8 + j" by (auto simp add: le_iff_add)
    have "unat ua' div 256 = n * 2 ^ j" using u by (simp add: j power_add)
    moreover have "?e - 150 = - int j" by (simp add: j)
    ultimately show ?thesis by (simp only: scale2_cancel)
  qed
  moreover have "real n = real_of_int \<bar>sint a\<bar>" using mag by (metis of_int_of_nat_eq)
  ultimately have "(if s = 1 then - 1 else 1) * real (unat ua' div 256) * scale2 (?e - 150)
      = real_of_int (sint a)"
    by (auto simp add: s_def simp del: of_int_sint)
  then show ?thesis using res val by simp
qed

lemma floatsisf_returns: "\<exists>w. floatsisf a = Some w"
proof (cases "a = 0")
  case True
  then show ?thesis by (simp add: floatsisf_def)
next
  case False
  then have "(if sint a < 0 then - a else a) \<noteq> 0" by simp
  from f32_lead_loop_returns [OF this, of "127 + 31"] show ?thesis
    using False by (auto simp add: floatsisf_def)
qed

lemma u64_top_bit_clear: "(a :: u64) AND 0x8000000000000000 = 0 \<longleftrightarrow> unat a < 2 ^ 63"
proof -
  have lt: "unat a < 2 ^ 64" using unsigned_less [of a] by simp
  have "(0x8000000000000000 :: u64) = 2 ^ 63" by simp
  then have "a AND 0x8000000000000000 = 0 \<longleftrightarrow> \<not> bit a 63"
    by (simp only: and_exp_eq_0_iff_not_bit)
  also have "\<dots> \<longleftrightarrow> even (unat a div 2 ^ 63)"
  proof -
    have "bit a 63 \<longleftrightarrow> bit (unat a) 63" by (simp add: bit_unsigned_iff)
    then show ?thesis by (simp add: bit_iff_odd)
  qed
  also have "\<dots> \<longleftrightarrow> unat a < 2 ^ 63"
  proof -
    have "unat a div 2 ^ 63 < 2" using lt by (simp add: less_mult_imp_div_less)
    then have "even (unat a div 2 ^ 63) \<longleftrightarrow> unat a div 2 ^ 63 = 0"
      by (cases "unat a div 2 ^ 63") auto
    then show ?thesis by (simp add: div_eq_0_iff)
  qed
  finally show ?thesis .
qed

lemma f64_lead_loop_returns:
  "a \<noteq> 0 \<Longrightarrow> \<exists>k a'. f64_lead_loop a e = Some (a', e - int k)
      \<and> unat a' = unat a * 2 ^ k \<and> 2 ^ 63 \<le> unat a'"
proof (induction "2 ^ 64 - unat a" arbitrary: a e rule: less_induct)
  case less
  have lt: "unat a < 2 ^ 64" using unsigned_less [of a] by simp
  show ?case
  proof (cases "a AND push_bit 63 1 = 0")
    case False
    then have "f64_lead_loop a e = Some (a, e - int 0)"
      by (subst f64_lead_loop.simps) simp
    moreover have "2 ^ 63 \<le> unat a" using False by (simp add: u64_top_bit_clear)
    ultimately show ?thesis by (intro exI [of _ 0] exI [of _ a]) simp
  next
    case True
    then have small: "unat a < 2 ^ 63" by (simp add: u64_top_bit_clear)
    have nz: "0 < unat a" using less.prems by (simp add: unat_gt_0)
    have "unat (push_bit 1 a) = (unat a * 2) mod 2 ^ 64"
      by (simp add: push_bit_eq_mult unat_word_ariths)
    then have dbl: "unat (push_bit 1 a) = 2 * unat a"
      using small by simp
    then have nz': "push_bit 1 a \<noteq> 0"
      using nz by (metis mult_eq_0_iff not_less0 unat_0 zero_neq_numeral)
    have "2 ^ 64 - unat (push_bit 1 a) < 2 ^ 64 - unat a"
      using dbl nz lt by simp
    from less.hyps [OF this nz', of "e - 1"] obtain k a'
      where r: "f64_lead_loop (push_bit 1 a) (e - 1) = Some (a', e - 1 - int k)"
        and u: "unat a' = unat (push_bit 1 a) * 2 ^ k" and t: "2 ^ 63 \<le> unat a'"
      by blast
    have "f64_lead_loop a e = Some (a', e - int (Suc k))"
      using True r by (subst f64_lead_loop.simps) simp
    moreover have "unat a' = unat a * 2 ^ Suc k" using u dbl by simp
    ultimately show ?thesis using t by blast
  qed
qed

lemma f64_unpack:
  fixes S E F :: u64
  defines "w \<equiv> push_bit 63 S OR push_bit 52 (take_bit 11 E) OR take_bit 52 F"
  shows "drop_bit 52 w AND mask 11 = take_bit 11 E"
    and "w AND mask 52 = take_bit 52 F"
    and "bit w 63 \<longleftrightarrow> bit S 0"
proof -
  show "drop_bit 52 w AND mask 11 = take_bit 11 E"
    unfolding w_def by (rule bit_word_eqI) (auto simp add: bit_simps)
  show "w AND mask 52 = take_bit 52 F"
    unfolding w_def by (rule bit_word_eqI) (auto simp add: bit_simps)
  show "bit w 63 \<longleftrightarrow> bit S 0"
    unfolding w_def by (auto simp add: bit_simps)
qed

lemma f64_value_pack:
  assumes s: "s = 0 \<or> s = 1" and e: "0 < e" "e < 2047" and m: "2 ^ 63 \<le> unat a"
  shows "f64_value (push_bit 63 (word_of_int s) OR push_bit 52 (word_of_int e)
                     OR (drop_bit 11 a AND 0xFFFFFFFFFFFFF))
         = Some ((if s = 1 then - 1 else 1) * real (unat a div 2048) * scale2 (e - 1075))"
proof -
  let ?E = "word_of_int e :: u64" and ?S = "word_of_int s :: u64"
  let ?w = "push_bit 63 ?S OR push_bit 52 ?E OR (drop_bit 11 a AND 0xFFFFFFFFFFFFF)"
  have m11: "(0x7FF :: u64) = mask 11" and m52: "(0xFFFFFFFFFFFFF :: u64) = mask 52"
    by (simp_all add: mask_eq_exp_minus_1)
  have uE: "uint ?E = e" using e by (simp add: uint_word_of_int take_bit_int_eq_self)
  have "uint (take_bit 11 ?E) = e"
    using e by (simp add: unsigned_take_bit_eq uE take_bit_int_eq_self)
  then have tE: "take_bit 11 ?E = ?E" by (metis uE word_uint_eq_iff)
  have w: "?w = push_bit 63 ?S OR push_bit 52 (take_bit 11 ?E) OR take_bit 52 (drop_bit 11 a)"
    unfolding tE by (simp add: m52 take_bit_eq_mask)
  have "drop_bit 52 ?w AND 0x7FF = take_bit 11 ?E"
    by (subst w) (simp only: m11 f64_unpack(1))
  then have f1: "uint (drop_bit 52 ?w AND 0x7FF) = e" by (simp add: tE uE)
  have lt: "unat a < 2 ^ 64" using unsigned_less [of a] by simp
  have "unat (take_bit 52 (drop_bit 11 a)) = (unat a div 2048) mod 2 ^ 52"
    by (simp add: drop_bit_eq_div take_bit_eq_mod unat_mod unat_div)
  also have "\<dots> = unat a div 2048 - 2 ^ 52"
  proof -
    have "2 ^ 52 \<le> unat a div 2048" "unat a div 2048 < 2 ^ 53" using m lt by simp_all
    then show ?thesis by (simp add: mod_if le_mod_geq)
  qed
  finally have "unat (take_bit 52 (drop_bit 11 a)) = unat a div 2048 - 2 ^ 52" .
  moreover have "?w AND 0xFFFFFFFFFFFFF = take_bit 52 (drop_bit 11 a)"
    by (subst w) (simp only: m52 f64_unpack(2))
  ultimately have "unat (?w AND 0xFFFFFFFFFFFFF) = unat a div 2048 - 2 ^ 52" by simp
  moreover have "2 ^ 52 \<le> unat a div 2048" using m by simp
  ultimately have f2: "2 ^ 52 + uint (?w AND 0xFFFFFFFFFFFFF) = int (unat a div 2048)"
    by (simp add: uint_nat)
  have f3: "bit ?w 63 \<longleftrightarrow> s = 1"
    unfolding w f64_unpack(3) using s by auto
  show ?thesis
    unfolding f64_value_def Let_def f1 f2 f3 using e by simp
qed

lemma u64_to_f64_bits_returns: "\<exists>d. u64_to_f64_bits a s = Some d"
proof (cases "a = 0")
  case True
  then show ?thesis by (simp add: u64_to_f64_bits_def)
next
  case False
  from f64_lead_loop_returns [OF this, of "1023 + 63"] show ?thesis
    using False by (auto simp add: u64_to_f64_bits_def Let_def)
qed

lemma floatsidf_value:
  assumes nonneg: "0 \<le> sint a"
  shows "\<exists>d. floatsidf a = Some d \<and> f64_value d = Some (real_of_int (sint a))"
proof (cases "a = 0")
  case True
  then show ?thesis by (simp add: floatsidf_def u64_to_f64_bits_def f64_value_def)
next
  case False
  define ua where "ua = (ucast a :: u64)"
  define n where "n = unat ua"
  have na: "n = unat a" by (simp add: n_def ua_def unat_ucast_u32)
  have "uint a = \<bar>sint a\<bar>" using u32_magnitude [of a] nonneg by simp
  then have mag: "int n = sint a" using nonneg by (simp add: na)
  have "sint a < 2 ^ 31" using sint_lt [of a] by simp
  then have n31: "n < 2 ^ 31" using mag by (simp; linarith)
  have n0: "0 < n" using False by (simp add: na unat_gt_0)
  then have nz: "ua \<noteq> 0" by (auto simp add: n_def)
  from f64_lead_loop_returns [OF nz, of "1023 + 63"] obtain k a'
    where loop: "f64_lead_loop ua (1023 + 63) = Some (a', 1023 + 63 - int k)"
      and u: "unat a' = n * 2 ^ k" and top: "2 ^ 63 \<le> unat a'"
    unfolding n_def by blast
  have lt: "unat a' < 2 ^ 64" using unsigned_less [of a'] by simp
  have k33: "33 \<le> k"
  proof (rule ccontr)
    assume "\<not> 33 \<le> k"
    then have "k \<le> 32" by simp
    then have "(2 :: nat) ^ k \<le> 2 ^ 32" by (intro power_increasing) simp_all
    then have "n * 2 ^ k \<le> 2 ^ 31 * 2 ^ 32" using n31 by (intro mult_le_mono) simp_all
    moreover have "n * 2 ^ k \<noteq> 2 ^ 31 * 2 ^ 32"
    proof
      assume eq: "n * 2 ^ k = 2 ^ 31 * 2 ^ 32"
      have "n * 2 ^ k < 2 ^ 31 * 2 ^ k" using n31 by simp
      also have "\<dots> \<le> 2 ^ 31 * 2 ^ 32" using \<open>(2 :: nat) ^ k \<le> 2 ^ 32\<close> by simp
      finally show False using eq by simp
    qed
    ultimately show False using top u by simp
  qed
  have k63: "k \<le> 63"
  proof (rule ccontr)
    assume "\<not> k \<le> 63"
    then have "64 \<le> k" by simp
    then have "(2 :: nat) ^ 64 \<le> 2 ^ k" by (intro power_increasing) simp_all
    also have "\<dots> \<le> n * 2 ^ k" using n0 by simp
    finally show False using lt u by simp
  qed
  let ?e = "1023 + 63 - int k"
  have res: "floatsidf a = Some (push_bit 63 (word_of_int 0) OR push_bit 52 (word_of_int ?e)
                OR (drop_bit 11 a' AND 0xFFFFFFFFFFFFF))"
    using nz loop nonneg unfolding ua_def
    by (simp add: floatsidf_def u64_to_f64_bits_def Let_def)
  have val: "f64_value (push_bit 63 (word_of_int 0) OR push_bit 52 (word_of_int ?e)
                OR (drop_bit 11 a' AND 0xFFFFFFFFFFFFF))
        = Some ((if (0 :: int) = 1 then - 1 else 1) * real (unat a' div 2048)
                 * scale2 (?e - 1075))"
    using k33 k63 top by (intro f64_value_pack) auto
  from k33 obtain j where j: "k = 11 + j" by (auto simp add: le_iff_add)
  have "unat a' div 2048 = n * 2 ^ j" using u by (simp add: j power_add)
  moreover have "?e - 1075 = - int j" by (simp add: j)
  ultimately have "real (unat a' div 2048) * scale2 (?e - 1075) = real n"
    by (simp only: scale2_cancel)
  moreover have "real n = real_of_int (sint a)" using mag by (metis of_int_of_nat_eq)
  ultimately have "(if (0 :: int) = 1 then - 1 else 1) * real (unat a' div 2048)
       * scale2 (?e - 1075) = real_of_int (sint a)"
    by (simp del: of_int_sint)
  then show ?thesis using res val by simp
qed

lemma div_pow2_shift:
  assumes "t \<le> 8"
  shows "(n * 2 ^ (8 - t)) div 256 = (n :: nat) div 2 ^ t"
proof -
  have "(256 :: nat) = 2 ^ (8 - t) * 2 ^ t"
    using assms by (simp flip: power_add)
  then have "(n * 2 ^ (8 - t)) div 256 = (n * 2 ^ (8 - t)) div (2 ^ (8 - t) * 2 ^ t)" by simp
  also have "\<dots> = (n * 2 ^ (8 - t)) div 2 ^ (8 - t) div 2 ^ t" by (simp only: div_mult2_eq)
  also have "\<dots> = n div 2 ^ t" by simp
  finally show ?thesis .
qed

lemma floatsisf_truncates:
  assumes lo: "2 ^ (23 + t) \<le> \<bar>sint a\<bar>" and hi: "\<bar>sint a\<bar> < 2 ^ (24 + t)"
  shows "\<exists>w. floatsisf a = Some w \<and>
           f32_value w = Some (real_of_int (sgn (sint a) * (\<bar>sint a\<bar> div 2 ^ t * 2 ^ t)))"
proof -
  have False: "a \<noteq> 0" using lo by auto
  define ua where "ua = (if sint a < 0 then - a else a)"
  define s :: int where "s = (if sint a < 0 then 1 else 0)"
  define n where "n = unat ua"
  have mag: "int n = \<bar>sint a\<bar>" unfolding n_def ua_def using u32_magnitude [of a] by simp
  have nz: "ua \<noteq> 0" using False by (auto simp add: ua_def)
  then have n0: "0 < n" by (simp add: n_def unat_gt_0)
  have "int (2 ^ (23 + t)) \<le> int n" "int n < int (2 ^ (24 + t))" using lo hi mag by simp_all
  then have nlo: "2 ^ (23 + t) \<le> n" and nhi: "n < 2 ^ (24 + t)"
    by (simp_all only: of_nat_le_iff of_nat_less_iff)
  from f32_lead_loop_returns [OF nz, of "127 + 31"] obtain k ua'
    where loop: "f32_lead_loop ua (127 + 31) = Some (ua', 127 + 31 - int k)"
      and u: "unat ua' = n * 2 ^ k" and top: "2 ^ 31 \<le> unat ua'"
    unfolding n_def by blast
  have lt: "unat ua' < 2 ^ 32" using unsigned_less [of ua'] by simp
  have "(2 :: nat) ^ (23 + t + k) = 2 ^ (23 + t) * 2 ^ k" by (simp add: power_add)
  also have "\<dots> \<le> n * 2 ^ k" using nlo by (intro mult_le_mono) simp_all
  also have "\<dots> < 2 ^ 32" using lt u by simp
  finally have "(2 :: nat) ^ (23 + t + k) < 2 ^ 32" .
  then have "23 + t + k < 32" by (rule power_less_imp_less_exp [rotated]) simp
  then have tk1: "t + k \<le> 8" by simp
  have "(2 :: nat) ^ 31 \<le> n * 2 ^ k" using top u by simp
  also have "\<dots> < 2 ^ (24 + t) * 2 ^ k" using nhi by simp
  also have "\<dots> = 2 ^ (24 + t + k)" by (simp add: power_add)
  finally have "(2 :: nat) ^ 31 < 2 ^ (24 + t + k)" .
  then have "31 < 24 + t + k" by (rule power_less_imp_less_exp [rotated]) simp
  with tk1 have k: "k = 8 - t" and t8: "t \<le> 8" by simp_all
  let ?e = "127 + 31 - int k"
  have res: "floatsisf a = Some (push_bit 31 (word_of_int s) OR push_bit 23 (word_of_int ?e)
                OR (drop_bit 8 ua' AND 0x7FFFFF))"
    using False loop unfolding ua_def s_def
    by (cases "sint a < 0") (simp_all add: floatsisf_def)
  have val: "f32_value (push_bit 31 (word_of_int s) OR push_bit 23 (word_of_int ?e)
                OR (drop_bit 8 ua' AND 0x7FFFFF))
        = Some ((if s = 1 then - 1 else 1) * real (unat ua' div 256) * scale2 (?e - 150))"
    using k top by (intro f32_value_pack) (auto simp add: s_def)
  have "unat ua' div 256 = n div 2 ^ t" unfolding u k using t8 by (rule div_pow2_shift)
  moreover have "?e - 150 = int t" using k t8 by simp
  ultimately have "real (unat ua' div 256) * scale2 (?e - 150) = real (n div 2 ^ t * 2 ^ t)"
    by (simp add: scale2_def)
  moreover have "real (n div 2 ^ t * 2 ^ t) = real_of_int (\<bar>sint a\<bar> div 2 ^ t * 2 ^ t)"
  proof -
    have "int (n div 2 ^ t * 2 ^ t) = \<bar>sint a\<bar> div 2 ^ t * 2 ^ t"
      by (simp add: zdiv_int flip: mag)
    then show ?thesis by (metis of_int_of_nat_eq)
  qed
  ultimately have "(if s = 1 then - 1 else 1) * real (unat ua' div 256) * scale2 (?e - 150)
      = real_of_int (sgn (sint a) * (\<bar>sint a\<bar> div 2 ^ t * 2 ^ t))"
    using False by (auto simp add: s_def sgn_if simp del: of_int_sint)
  then show ?thesis using res val by simp
qed

text \<open>
  Claim C6, as the code has it.  \<open>__floatsisf\<close> and \<open>__floatsidf\<close> return on every
  32-bit integer.  \<open>__floatsisf (x)\<close> keeps the 24 most significant bits of the
  magnitude of \<open>x\<close> and clears the bits below them, with no rounding: when
  \<open>2 ^ (23 + t) \<le> \<bar>x\<bar> < 2 ^ (24 + t)\<close> the result represents \<open>x\<close> with the low
  \<open>t\<close> bits of its magnitude set to zero (truncation toward zero), so it represents
  \<open>x\<close> exactly if and only if those bits are zero; in particular it is exact
  whenever \<open>- 2 ^ 24 \<le> x \<le> 2 ^ 24\<close>.  \<open>__floatsidf (x)\<close> represents \<open>x\<close> exactly
  when \<open>0 \<le> x\<close>.
\<close>

theorem int_to_float_exact:
  "(\<exists>w. floatsisf a = Some w) \<and> (\<exists>d. floatsidf a = Some d) \<and>
   (- (2 ^ 24) \<le> sint a \<and> sint a \<le> 2 ^ 24 \<longrightarrow>
      (\<exists>w. floatsisf a = Some w \<and> f32_value w = Some (real_of_int (sint a)))) \<and>
   (\<forall>t. 2 ^ (23 + t) \<le> \<bar>sint a\<bar> \<and> \<bar>sint a\<bar> < 2 ^ (24 + t) \<longrightarrow>
      (\<exists>w. floatsisf a = Some w \<and>
           f32_value w = Some (real_of_int (sgn (sint a) * (\<bar>sint a\<bar> div 2 ^ t * 2 ^ t))))) \<and>
   (0 \<le> sint a \<longrightarrow>
      (\<exists>d. floatsidf a = Some d \<and> f64_value d = Some (real_of_int (sint a))))"
proof -
  have "\<exists>d. floatsidf a = Some d"
    using u64_to_f64_bits_returns by (cases "sint a < 0") (simp_all add: floatsidf_def)
  then show ?thesis
    using floatsisf_returns [of a] floatsisf_value [of a] floatsidf_value [of a]
      floatsisf_truncates [of _ a] by blast
qed

theorem int_to_float_exact_witness:
  "- (2 ^ 24) \<le> sint (0xFFFFFFFB :: u32) \<and> sint (0xFFFFFFFB :: u32) \<le> 2 ^ 24 \<and>
   (\<exists>w. floatsisf 0xFFFFFFFB = Some w \<and> f32_value w = Some (- 5)) \<and>
   (2 :: int) ^ (23 + 7) \<le> \<bar>sint (0x80000081 :: u32)\<bar> \<and>
   \<bar>sint (0x80000081 :: u32)\<bar> < 2 ^ (24 + 7) \<and>
   (\<exists>w. floatsisf 0x80000081 = Some w \<and> f32_value w = Some (- 2147483392)) \<and>
   0 \<le> sint (5 :: u32) \<and>
   (\<exists>d. floatsidf 5 = Some d \<and> f64_value d = Some 5)"
proof -
  have a: "sint (0xFFFFFFFB :: u32) = - 5" by simp
  have b: "sint (5 :: u32) = 5" by simp
  have c: "sint (0x80000081 :: u32) = - 2147483519" by simp
  have d: "(2147483519 :: int) div 2 ^ 7 * 2 ^ 7 = 2147483392" by simp
  have "\<forall>t. 2 ^ (23 + t) \<le> \<bar>sint (0x80000081 :: u32)\<bar> \<and> \<bar>sint (0x80000081 :: u32)\<bar> < 2 ^ (24 + t) \<longrightarrow>
      (\<exists>w. floatsisf 0x80000081 = Some w \<and>
           f32_value w = Some (real_of_int (sgn (sint (0x80000081 :: u32))
              * (\<bar>sint (0x80000081 :: u32)\<bar> div 2 ^ t * 2 ^ t))))"
    using int_to_float_exact [of "0x80000081"] by blast
  from this [rule_format, of 7]
  have "\<exists>w. floatsisf 0x80000081 = Some w \<and> f32_value w = Some (- 2147483392)"
    unfolding c by (simp add: d del: of_int_sint)
  then show ?thesis
    using int_to_float_exact [of "0xFFFFFFFB"] int_to_float_exact [of 5]
    by (simp add: a b c del: of_int_sint)
qed

text \<open>
  \<open>2 ^ 24 + 1\<close> and \<open>2 ^ 24 + 3\<close> lose their low bit in \<open>__floatsisf\<close> (the second
  would round to \<open>2 ^ 24 + 4\<close> under round-to-nearest-even); \<open>__floatsidf (-1)\<close>
  negates the zero-extended argument on 64 bits and returns a pattern of magnitude
  \<open>2 ^ 64 - 2 ^ 32\<close>.
\<close>

theorem int_to_float_inexact:
  "sint (16777217 :: u32) = 16777217 \<and> floatsisf 16777217 = Some 0x4B800000 \<and>
   f32_value 0x4B800000 = Some 16777216 \<and>
   sint (16777219 :: u32) = 16777219 \<and> floatsisf 16777219 = Some 0x4B800001 \<and>
   f32_value 0x4B800001 = Some 16777218 \<and>
   sint (0xFFFFFFFF :: u32) = - 1 \<and> floatsidf 0xFFFFFFFF = Some 0xC3EFFFFFFFE00000 \<and>
   f64_value 0xC3EFFFFFFFE00000 = Some (- 18446744069414584320)"
proof -
  have "floatsisf 16777217 = Some 0x4B800000"
    by (simp add: floatsisf_def f32_lead_loop.simps)
  moreover have "floatsisf 16777219 = Some 0x4B800001"
    by (simp add: floatsisf_def f32_lead_loop.simps)
  moreover have "floatsidf 0xFFFFFFFF = Some 0xC3EFFFFFFFE00000"
    by (simp add: floatsidf_def u64_to_f64_bits_def f64_lead_loop.simps Let_def)
  moreover have "f32_value 0x4B800000 = Some 16777216"
    by (simp add: f32_value_def scale2_def)
  moreover have "f32_value 0x4B800001 = Some 16777218"
    by (simp add: f32_value_def scale2_def)
  moreover have "f64_value 0xC3EFFFFFFFE00000 = Some (- 18446744069414584320)"
    by (simp add: f64_value_def scale2_def)
  ultimately show ?thesis by simp
qed

subsection \<open>Commutativity of addition and multiplication\<close>

lemma f32_zero_magnitude_exp: "a AND 0x7FFFFFFF = 0 \<Longrightarrow> f32_exp a = 0"
  using f32_zero_magnitude [of a] by (cases "a = 0") (auto simp add: f32_exp_def)

lemma f64_zero_magnitude_exp: "a AND 0x7FFFFFFFFFFFFFFF = 0 \<Longrightarrow> f64_exp a = 0"
  using f64_zero_magnitude [of a] by (cases "a = 0") (auto simp add: f64_exp_def)

lemma addsf3_combine_commute: "addsf3_combine sa sb x y e = addsf3_combine sb sa y x e"
  by (auto simp add: addsf3_combine_def Let_def add.commute)

lemma adddf3_combine_commute: "adddf3_combine sa sb x y e = adddf3_combine sb sa y x e"
  by (auto simp add: adddf3_combine_def Let_def add.commute)

lemma addsf3_commute_normal:
  assumes "f32_exp a \<noteq> 0" and "f32_exp b \<noteq> 0"
  shows "addsf3 a b = addsf3 b a"
proof -
  have za: "a AND 0x7FFFFFFF \<noteq> 0" and zb: "b AND 0x7FFFFFFF \<noteq> 0"
    using assms f32_zero_magnitude_exp by blast+
  consider "f32_exp a < f32_exp b" | "f32_exp a = f32_exp b" | "f32_exp b < f32_exp a"
    by linarith
  then show ?thesis
  proof cases
    case 1
    then show ?thesis using assms za zb
      by (simp add: addsf3_def Let_def addsf3_combine_commute [of "f32_sign a"])
  next
    case 2
    then show ?thesis using assms za zb
      by (simp add: addsf3_def Let_def addsf3_combine_commute [of "f32_sign a"])
  next
    case 3
    then show ?thesis using assms za zb
      by (simp add: addsf3_def Let_def addsf3_combine_commute [of "f32_sign a"])
  qed
qed

lemma mul_u64_commute: "mul_u64 a b = mul_u64 b a"
  by (simp add: mul_u64_def Let_def mult.commute add.commute add.left_commute)

lemma mulsf3_commute: "mulsf3 a b = mulsf3 b a"
  by (simp add: mulsf3_def Let_def xor.commute mult.commute add.commute disj_commute)

lemma muldf3_commute: "muldf3 a b = muldf3 b a"
  by (simp add: muldf3_def Let_def xor.commute mul_u64_commute [of "f64_frac a OR 0x10000000000000"] add.commute disj_commute)

lemma adddf3_commute_normal:
  assumes "f64_exp a \<noteq> 0" and "f64_exp b \<noteq> 0"
    and "f64_exp a \<noteq> 2047 \<or> f64_exp b \<noteq> 2047"
  shows "adddf3 a b = adddf3 b a"
proof -
  have za: "a AND 0x7FFFFFFFFFFFFFFF \<noteq> 0" and zb: "b AND 0x7FFFFFFFFFFFFFFF \<noteq> 0"
    using assms f64_zero_magnitude_exp by blast+
  consider "f64_exp a < f64_exp b" | "f64_exp a = f64_exp b" | "f64_exp b < f64_exp a"
    by linarith
  then show ?thesis
  proof cases
    case 1
    then show ?thesis using assms za zb
      by (auto simp add: adddf3_def Let_def adddf3_combine_commute [of "f64_sign a"])
  next
    case 2
    then show ?thesis using assms za zb
      by (auto simp add: adddf3_def Let_def adddf3_combine_commute [of "f64_sign a"])
  next
    case 3
    then show ?thesis using assms za zb
      by (auto simp add: adddf3_def Let_def adddf3_combine_commute [of "f64_sign a"])
  qed
qed

lemma addsf3_commute_one_normal:
  assumes "f32_exp a = 0" and "f32_exp b \<noteq> 0"
  shows "addsf3 a b = b" and "addsf3 b a = b"
proof -
  have zb: "b AND 0x7FFFFFFF \<noteq> 0" using assms f32_zero_magnitude_exp by blast
  show "addsf3 a b = b" using assms zb by (simp add: addsf3_def Let_def)
  show "addsf3 b a = b" using assms zb by (simp add: addsf3_def Let_def)
qed

lemma adddf3_commute_one_normal:
  assumes "f64_exp a = 0" and "f64_exp b \<noteq> 0"
  shows "adddf3 a b = b" and "adddf3 b a = b"
proof -
  have zb: "b AND 0x7FFFFFFFFFFFFFFF \<noteq> 0" using assms f64_zero_magnitude_exp by blast
  show "adddf3 a b = b" using assms zb by (simp add: adddf3_def Let_def)
  show "adddf3 b a = b" using assms zb by (simp add: adddf3_def Let_def)
qed

lemma addsf3_small_exponents:
  assumes "f32_exp a = 0" and "f32_exp b = 0"
  shows "addsf3 a b = (if a AND 0x7FFFFFFF = 0 then b else if b AND 0x7FFFFFFF = 0 then a else b)"
  using assms by (simp add: addsf3_def Let_def)

lemma adddf3_small_exponents:
  assumes "f64_exp a = 0" and "f64_exp b = 0"
  shows "adddf3 a b = (if a AND 0x7FFFFFFFFFFFFFFF = 0 then b
                       else if b AND 0x7FFFFFFFFFFFFFFF = 0 then a else b)"
  using assms by (simp add: adddf3_def Let_def)

lemma adddf3_max_exponents:
  assumes "f64_exp a = 2047" and "f64_exp b = 2047"
  shows "adddf3 a b = a"
proof -
  have "a AND 0x7FFFFFFFFFFFFFFF \<noteq> 0" "b AND 0x7FFFFFFFFFFFFFFF \<noteq> 0"
    using assms f64_zero_magnitude_exp by fastforce+
  then show ?thesis using assms by (simp add: adddf3_def Let_def)
qed

lemma addsf3_commute_iff:
  "addsf3 a b \<noteq> addsf3 b a \<longleftrightarrow>
     a \<noteq> b \<and> f32_exp a = 0 \<and> f32_exp b = 0 \<and>
     ((a AND 0x7FFFFFFF = 0) = (b AND 0x7FFFFFFF = 0))"
proof (cases "f32_exp a = 0")
  case a0: True
  show ?thesis
  proof (cases "f32_exp b = 0")
    case True
    show ?thesis
      using a0 True addsf3_small_exponents [OF a0 True] addsf3_small_exponents [OF True a0]
      by auto
  next
    case False
    with a0 show ?thesis using addsf3_commute_one_normal [of a b] by simp
  qed
next
  case a1: False
  show ?thesis
  proof (cases "f32_exp b = 0")
    case True
    with a1 show ?thesis using addsf3_commute_one_normal [of b a] by simp
  next
    case False
    with a1 show ?thesis using addsf3_commute_normal [of a b] by simp
  qed
qed

lemma adddf3_commute_iff:
  "adddf3 a b \<noteq> adddf3 b a \<longleftrightarrow>
     a \<noteq> b \<and>
     (f64_exp a = 0 \<and> f64_exp b = 0 \<and>
        ((a AND 0x7FFFFFFFFFFFFFFF = 0) = (b AND 0x7FFFFFFFFFFFFFFF = 0))
      \<or> f64_exp a = 2047 \<and> f64_exp b = 2047)"
proof (cases "f64_exp a = 0")
  case a0: True
  show ?thesis
  proof (cases "f64_exp b = 0")
    case True
    show ?thesis
      using a0 True adddf3_small_exponents [OF a0 True] adddf3_small_exponents [OF True a0]
      by auto
  next
    case False
    with a0 show ?thesis using adddf3_commute_one_normal [of a b] by simp
  qed
next
  case a1: False
  show ?thesis
  proof (cases "f64_exp b = 0")
    case True
    with a1 show ?thesis using adddf3_commute_one_normal [of b a] by simp
  next
    case b1: False
    show ?thesis
    proof (cases "f64_exp a = 2047 \<and> f64_exp b = 2047")
      case True
      then show ?thesis
        using adddf3_max_exponents [of a b] adddf3_max_exponents [of b a] a1 b1 by auto
    next
      case False
      then have "adddf3 a b = adddf3 b a" using a1 b1 by (intro adddf3_commute_normal) auto
      then show ?thesis using False a1 b1 by auto
    qed
  qed
qed

text \<open>
  Claim C2, as the code has it.  \<open>__mulsf3\<close> and \<open>__muldf3\<close> are commutative bit for
  bit on all operand pairs.  \<open>__addsf3 (a, b)\<close> differs from \<open>__addsf3 (b, a)\<close> exactly
  when \<open>a\<close> and \<open>b\<close> are distinct and either both have zero magnitude (\<open>+0\<close> and
  \<open>-0\<close>) or both are nonzero subnormals; on every other pair, in particular on every
  pair of finite operands of which one is normal and on a zero with a subnormal,
  addition is commutative bit for bit.  \<open>__adddf3\<close> is the same, and over all bit
  patterns it also differs on two distinct operands whose exponent fields are both
  at their maximum.  On two zeros, and on two nonzero subnormals, addition returns
  its second operand.
\<close>

theorem add_mul_commute:
  "mulsf3 a b = mulsf3 b a \<and> muldf3 c d = muldf3 d c \<and>
   (addsf3 a b \<noteq> addsf3 b a \<longleftrightarrow>
      a \<noteq> b \<and> f32_exp a = 0 \<and> f32_exp b = 0 \<and>
      ((a AND 0x7FFFFFFF = 0) = (b AND 0x7FFFFFFF = 0))) \<and>
   (adddf3 c d \<noteq> adddf3 d c \<longleftrightarrow>
      c \<noteq> d \<and>
      (f64_exp c = 0 \<and> f64_exp d = 0 \<and>
         ((c AND 0x7FFFFFFFFFFFFFFF = 0) = (d AND 0x7FFFFFFFFFFFFFFF = 0))
       \<or> f64_exp c = 2047 \<and> f64_exp d = 2047)) \<and>
   (f32_exp a = 0 \<and> f32_exp b = 0 \<and>
      ((a AND 0x7FFFFFFF = 0) = (b AND 0x7FFFFFFF = 0)) \<longrightarrow> addsf3 a b = b) \<and>
   (f64_exp c = 0 \<and> f64_exp d = 0 \<and>
      ((c AND 0x7FFFFFFFFFFFFFFF = 0) = (d AND 0x7FFFFFFFFFFFFFFF = 0)) \<longrightarrow> adddf3 c d = d)"
  using mulsf3_commute [of a b] muldf3_commute [of c d] addsf3_commute_iff [of a b]
    adddf3_commute_iff [of c d] addsf3_small_exponents [of a b] adddf3_small_exponents [of c d]
  by auto

theorem add_mul_commute_witness:
  "addsf3 0x3F800000 0x40000000 = addsf3 0x40000000 0x3F800000 \<and>
   addsf3 1 0x80000000 = addsf3 0x80000000 1 \<and>
   f32_exp 1 = 0 \<and> f32_exp 2 = 0 \<and> addsf3 1 2 = 2 \<and>
   adddf3 0x3FF0000000000000 0xC000000000000000 = adddf3 0xC000000000000000 0x3FF0000000000000 \<and>
   adddf3 1 0 = adddf3 0 1 \<and>
   f64_exp 0 = 0 \<and> f64_exp 0x8000000000000000 = 0 \<and> adddf3 0 0x8000000000000000 = 0x8000000000000000"
proof -
  have e: "f32_exp 0x3F800000 = 127" "f32_exp 1 = 0" "f32_exp 2 = 0" "f32_exp 0x80000000 = 0"
    by (simp_all add: f32_exp_def)
  have f: "f64_exp 0x3FF0000000000000 = 1023" "f64_exp 1 = 0" "f64_exp 0 = 0"
    "f64_exp 0x8000000000000000 = 0"
    by (simp_all add: f64_exp_def)
  show ?thesis
    using e f
      add_mul_commute [of "0x3F800000" "0x40000000" "0x3FF0000000000000" "0xC000000000000000"]
      add_mul_commute [of 1 "0x80000000" 1 0]
      add_mul_commute [of 1 2 0 "0x8000000000000000"]
    by simp
qed

text \<open>
  Two zeros of opposite sign, and two distinct subnormals: all finite, and the sum
  depends on the operand order.
\<close>

theorem add_not_commutative_small_exponents:
  "f32_exp 0 \<noteq> 255 \<and> f32_exp 0x80000000 \<noteq> 255 \<and> addsf3 0 0x80000000 \<noteq> addsf3 0x80000000 0 \<and>
   f32_exp 1 \<noteq> 255 \<and> f32_exp 2 \<noteq> 255 \<and> addsf3 1 2 \<noteq> addsf3 2 1 \<and>
   f64_exp 0 \<noteq> 2047 \<and> f64_exp 0x8000000000000000 \<noteq> 2047 \<and>
   adddf3 0 0x8000000000000000 \<noteq> adddf3 0x8000000000000000 0 \<and>
   f64_exp 1 \<noteq> 2047 \<and> f64_exp 2 \<noteq> 2047 \<and> adddf3 1 2 \<noteq> adddf3 2 1"
  by (simp add: addsf3_def adddf3_def f32_exp_def f64_exp_def Let_def)

section \<open>Properties of the segmented allocator\<close>

subsection \<open>Segment addresses\<close>

lemma mask28: "(0x0FFFFFFF :: u64) = mask 28"
  by (simp add: mask_eq_exp_minus_1)

lemma segment_id_of_FB_SEGMENT_ADDR: "segment_id_of (FB_SEGMENT_ADDR seg off) = ucast seg"
  unfolding segment_id_of_def FB_SEGMENT_ADDR_def mask28
  by (rule bit_word_eqI) (auto simp add: bit_simps dest: bit_imp_le_length)

lemma fb_is_segment_addr_iff:
  "fb_is_segment_addr base \<longleftrightarrow> take_bit 4 (segment_id_of base) \<noteq> 0"
proof -
  have "(0x0F :: u64) = mask 4" by (simp add: mask_eq_exp_minus_1)
  then show ?thesis
    by (simp add: fb_is_segment_addr_def segment_id_of_def take_bit_eq_mask)
qed

lemma take_bit_4_segment:
  assumes nz: "seg \<noteq> 0" and lt: "seg < 16"
  shows "take_bit 4 (ucast (seg :: u32) :: u64) \<noteq> 0"
proof -
  have "unat seg < 16" using lt by (simp add: word_less_nat_alt)
  then have "unat (take_bit 4 (ucast seg :: u64)) = unat seg"
    by (simp add: unsigned_take_bit_eq unat_ucast_u32 take_bit_nat_eq_self)
  then show ?thesis using nz by (metis unat_eq_0 unsigned_0)
qed

lemma FB_SEGMENT_ADDR_nonzero:
  assumes "seg \<noteq> 0"
  shows "FB_SEGMENT_ADDR seg off \<noteq> 0"
proof
  assume "FB_SEGMENT_ADDR seg off = 0"
  then have "segment_id_of (FB_SEGMENT_ADDR seg off) = 0" by (simp add: segment_id_of_def)
  then have "unat (ucast seg :: u64) = 0" by (simp add: segment_id_of_FB_SEGMENT_ADDR)
  then show False using assms by (simp add: unat_ucast_u32 unat_eq_0)
qed

subsection \<open>Configuration by a flat base\<close>

text \<open>
  Claim C5, as the code has it.  \<open>fb_heap_init\<close> with a non-null base and a nonzero
  size panics exactly when the low four bits of the base's segment identifier (bits
  28 to 31 of the address) are all zero; otherwise it sets the heap to
  \<open>[base, base + size)\<close> and leaves segment mode.  Every base built by
  \<open>FB_SEGMENT_ADDR\<close> from a segment identifier between 1 and 15 is accepted.
\<close>

theorem fb_heap_init_outcome:
  "(base \<noteq> 0 \<and> sz \<noteq> 0 \<longrightarrow>
      fb_heap_init base sz s =
        (if take_bit 4 (segment_id_of base) = 0 then Inl Base_Not_Segment_Address
         else Inr (s\<lparr>fb_heap_use_segments := False, fb_heap_ptr := base,
                     fb_heap_end := base + sz\<rparr>))) \<and>
   (seg \<noteq> 0 \<and> seg < 16 \<and> sz \<noteq> 0 \<longrightarrow>
      segment_id_of (FB_SEGMENT_ADDR seg off) = ucast seg \<and>
      fb_heap_init (FB_SEGMENT_ADDR seg off) sz s =
        Inr (s\<lparr>fb_heap_use_segments := False, fb_heap_ptr := FB_SEGMENT_ADDR seg off,
                fb_heap_end := FB_SEGMENT_ADDR seg off + sz\<rparr>))"
  using take_bit_4_segment [of seg] FB_SEGMENT_ADDR_nonzero [of seg off]
  by (simp add: fb_heap_init_def fb_is_segment_addr_iff segment_id_of_FB_SEGMENT_ADDR)

theorem fb_heap_init_outcome_witness:
  "(0x10000040 :: u64) \<noteq> 0 \<and> (64 :: u64) \<noteq> 0 \<and>
   fb_heap_init 0x10000040 64 heap_static_init =
      Inr (heap_static_init\<lparr>fb_heap_use_segments := False, fb_heap_ptr := 0x10000040,
                fb_heap_end := 0x10000080\<rparr>) \<and>
   fb_heap_init 0x400 64 heap_static_init = Inl Base_Not_Segment_Address \<and>
   (3 :: u32) \<noteq> 0 \<and> (3 :: u32) < 16 \<and>
   fb_heap_init (FB_SEGMENT_ADDR 3 8) 64 heap_static_init =
      Inr (heap_static_init\<lparr>fb_heap_use_segments := False, fb_heap_ptr := 0x30000008,
                fb_heap_end := 0x30000048\<rparr>)"
proof -
  have a: "(0x10000040 :: u64) \<noteq> 0 \<and> (0x400 :: u64) \<noteq> 0 \<and> (64 :: u64) \<noteq> 0" by simp
  have b: "(3 :: u32) \<noteq> 0 \<and> (3 :: u32) < 16" by simp
  have c: "FB_SEGMENT_ADDR 3 8 = 0x30000008" by (simp add: FB_SEGMENT_ADDR_def)
  have d: "take_bit 4 (segment_id_of 0x10000040) \<noteq> 0 \<and> take_bit 4 (segment_id_of 0x400) = 0"
    by (simp add: segment_id_of_def)
  show ?thesis
    using a b c d
      fb_heap_init_outcome [of "0x10000040" 64 heap_static_init 3 8]
      fb_heap_init_outcome [of "0x400" 64 heap_static_init 3 8]
    by simp
qed

text \<open>
  The address \<open>FB_SEGMENT_ADDR(16, 0)\<close> decodes to segment identifier 16, which is
  not zero, and \<open>fb_heap_init\<close> panics on it.
\<close>

theorem fb_heap_init_rejects_segment_16:
  "segment_id_of (FB_SEGMENT_ADDR 16 0) = 16 \<and> FB_SEGMENT_ADDR 16 0 = 0x100000000 \<and>
   fb_heap_init (FB_SEGMENT_ADDR 16 0) 64 heap_static_init = Inl Base_Not_Segment_Address"
  by (simp add: fb_heap_init_def fb_is_segment_addr_def segment_id_of_def FB_SEGMENT_ADDR_def)

subsection \<open>Addresses and sizes as natural numbers\<close>


















subsection \<open>Allocations never overlap\<close>




subsection \<open>Exhaustion\<close>




end
